theory Spec2Isabelle
  imports Complex_Main "HOL-Library.Multiset"
begin

section \<open>Window dimensions from two fiducial markers\<close>

text \<open>
  A shallow embedding of \<^verbatim>\<open>src/back_end/two_marker_detect.py\<close>.

  The image decoder and the marker detector (OpenCV) are outside the program: the model
  of \<^verbatim>\<open>calculate_two_markers\<close> starts from what \<^verbatim>\<open>detectMarkers\<close> returned, the
  pair of \<^verbatim>\<open>corners\<close> and \<^verbatim>\<open>ids\<close>. Floating-point numbers are modelled as
  real numbers, so the arithmetic is exact; the one place where the program leaves the
  finite numbers (a division by a zero pixel scale) is written out as the exception that
  the program ends with.
\<close>

subsection \<open>Data\<close>

text \<open>A pixel position \<^verbatim>\<open>[x, y]\<close> as the detector reports it.\<close>

type_synonym point = "real \<times> real"

text \<open>A pixel position after the corners were rounded to whole pixels.\<close>

type_synonym px = "int \<times> int"

text \<open>
  One detected marker: the detector returns an array of shape \<^verbatim>\<open>(1, 4, 2)\<close> for each
  marker, that is, exactly four corner points in cyclic order.
\<close>

datatype marker = Marker point point point point

fun rows :: "marker \<Rightarrow> point list" where
  "rows (Marker c0 c1 c2 c3) = [c0, c1, c2, c3]"

text \<open>
  What \<^verbatim>\<open>cv.aruco.detectMarkers\<close> returned: the corner arrays, and the identifiers,
  which are \<^verbatim>\<open>None\<close> when nothing was detected.
\<close>

record detection =
  corners :: "marker list"
  ids :: "int list option"

text \<open>
  The exceptions the program can end with.
  \<^item> \<open>WrongMarkerCount\<close>: \<^verbatim>\<open>ValueError("Unable to detect two markers, ...")\<close>;
  \<^item> \<open>NoDiagonal\<close>: \<^verbatim>\<open>ValueError("Unable to find diagonal for calculation, ...")\<close>;
  \<^item> \<open>EmptySequence\<close>: the \<^verbatim>\<open>ValueError\<close> of \<^verbatim>\<open>min\<close> and \<^verbatim>\<open>max\<close> on an empty list;
  \<^item> \<open>NotInList\<close>: the \<^verbatim>\<open>ValueError\<close> of \<^verbatim>\<open>list.index\<close> and \<^verbatim>\<open>list.remove\<close>;
  \<^item> \<open>IndexError\<close>: a list read out of range;
  \<^item> \<open>CeilOfInfinity\<close>: the \<^verbatim>\<open>OverflowError\<close> of \<^verbatim>\<open>math.ceil\<close> at an infinity;
  \<^item> \<open>CeilOfNaN\<close>: the \<^verbatim>\<open>ValueError\<close> of \<^verbatim>\<open>math.ceil\<close> at a NaN.
\<close>

datatype py_error =
    WrongMarkerCount
  | NoDiagonal
  | EmptySequence
  | NotInList
  | IndexError
  | CeilOfInfinity
  | CeilOfNaN

text \<open>Sequencing of steps that may raise: the first exception ends the computation.\<close>

definition and_then :: "py_error + 'a \<Rightarrow> ('a \<Rightarrow> py_error + 'b) \<Rightarrow> py_error + 'b" where
  "and_then r f = (case r of Inl e \<Rightarrow> Inl e | Inr v \<Rightarrow> f v)"

text \<open>
  Modelled from the spec: the constant \<^verbatim>\<open>MM_IN_RATIO\<close> is imported from
  \<^verbatim>\<open>one_marker_detect\<close>, which is not among the sources; the specification gives the
  conversion ratio as 25.4 millimetres per inch.
\<close>

definition MM_IN_RATIO :: real where
  "MM_IN_RATIO = 254 / 10"

subsection \<open>Library functions of Python and NumPy\<close>

text \<open>\<^verbatim>\<open>a - b\<close> on two rows of a coordinate array.\<close>

definition vec_sub :: "point \<Rightarrow> point \<Rightarrow> point" where
  "vec_sub p q = (fst p - fst q, snd p - snd q)"

text \<open>\<^verbatim>\<open>np.linalg.norm\<close> of a vector of two components: the Euclidean length.\<close>

definition linalg_norm :: "point \<Rightarrow> real" where
  "linalg_norm v = sqrt ((fst v)\<^sup>2 + (snd v)\<^sup>2)"

text \<open>\<^verbatim>\<open>np.average\<close> of a list of numbers.\<close>

definition np_average :: "real list \<Rightarrow> real" where
  "np_average xs = sum_list xs / real (length xs)"

text \<open>
  \<^verbatim>\<open>round(x)\<close> of a floating-point number: the nearest integer, a tie going to the even
  neighbour.
\<close>

definition py_round :: "real \<Rightarrow> int" where
  "py_round x =
     (let f = \<lfloor>x\<rfloor>; d = x - of_int f
      in if d < 1 / 2 then f
         else if 1 / 2 < d then f + 1
         else if even f then f else f + 1)"

text \<open>\<^verbatim>\<open>min\<close> and \<^verbatim>\<open>max\<close> of a list; both raise on the empty list.\<close>

definition py_min :: "int list \<Rightarrow> py_error + int" where
  "py_min xs = (case xs of [] \<Rightarrow> Inl EmptySequence | x # r \<Rightarrow> Inr (fold min r x))"

definition py_max :: "int list \<Rightarrow> py_error + int" where
  "py_max xs = (case xs of [] \<Rightarrow> Inl EmptySequence | x # r \<Rightarrow> Inr (fold max r x))"

text \<open>\<^verbatim>\<open>list.index(v)\<close>: the position of the first element equal to \<open>v\<close>.\<close>

fun list_index :: "int list \<Rightarrow> int \<Rightarrow> py_error + nat" where
  "list_index [] v = Inl NotInList"
| "list_index (x # xs) v =
     (if x = v then Inr 0
      else case list_index xs v of Inl e \<Rightarrow> Inl e | Inr i \<Rightarrow> Inr (Suc i))"

text \<open>\<^verbatim>\<open>list.remove(v)\<close>: the list without its first element equal to \<open>v\<close>.\<close>

definition list_remove :: "int list \<Rightarrow> int \<Rightarrow> py_error + int list" where
  "list_remove xs v = (if v \<in> set xs then Inr (remove1 v xs) else Inl NotInList)"

text \<open>\<^verbatim>\<open>coords[i]\<close> for an index that is not negative.\<close>

definition get_row :: "px list \<Rightarrow> nat \<Rightarrow> py_error + px" where
  "get_row coords i = (if i < length coords then Inr (coords ! i) else Inl IndexError)"

subsection \<open>\<^verbatim>\<open>get_scale\<close>\<close>

fun get_scale :: "marker \<Rightarrow> real" where
  "get_scale (Marker c0 c1 c2 c3) =
     (let displ_0 = vec_sub c0 c1;
          displ_1 = vec_sub c1 c2;
          displ_2 = vec_sub c2 c3;
          displ_3 = vec_sub c3 c0;
          norms = [linalg_norm displ_0, linalg_norm displ_1,
                   linalg_norm displ_2, linalg_norm displ_3]
      in np_average norms)"

subsection \<open>\<^verbatim>\<open>get_diff_two_markers_px\<close>\<close>

text \<open>
  Lines 166 to 183. The list \<open>y_coords_tmp\<close> is a copy that loses first the minimum,
  then the maximum; the four positions are looked up by value in the untouched list
  \<open>y_coords\<close>.
\<close>

definition extreme_indices :: "px list \<Rightarrow> py_error + (nat \<times> nat \<times> nat \<times> nat)" where
  "extreme_indices coords =
     (let y_coords = map snd coords in
      and_then (py_min y_coords) (\<lambda>y_1.
      and_then (list_index y_coords y_1) (\<lambda>y_1_idx.
      and_then (list_remove y_coords y_1) (\<lambda>y_coords_tmp.
      and_then (py_min y_coords_tmp) (\<lambda>y_2.
      and_then (list_index y_coords y_2) (\<lambda>y_2_idx.
      and_then (py_max y_coords_tmp) (\<lambda>y_3.
      and_then (list_index y_coords y_3) (\<lambda>y_3_idx.
      and_then (list_remove y_coords_tmp y_3) (\<lambda>y_coords_tmp2.
      and_then (py_max y_coords_tmp2) (\<lambda>y_4.
      and_then (list_index y_coords y_4) (\<lambda>y_4_idx.
        Inr (y_1_idx, y_2_idx, y_3_idx, y_4_idx))))))))))))"

text \<open>
  Lines 185 to 225. The layout is passed as a string; any string other than
  \<^verbatim>\<open>"TLBR"\<close> and \<^verbatim>\<open>"TRBL"\<close> raises, after the four positions were found.
\<close>

definition get_diff_two_markers_px :: "px list \<Rightarrow> string \<Rightarrow> py_error + (int \<times> int \<times> int \<times> int)" where
  "get_diff_two_markers_px coords diagonal =
     and_then (extreme_indices coords) (\<lambda>(y_1_idx, y_2_idx, y_3_idx, y_4_idx).
       if diagonal = ''TLBR'' then
         and_then (get_row coords y_1_idx) (\<lambda>p1.
         and_then (get_row coords y_2_idx) (\<lambda>p2.
         and_then (get_row coords y_3_idx) (\<lambda>p3.
         and_then (get_row coords y_4_idx) (\<lambda>p4.
           let tl = (if fst p1 < fst p2 then p1 else p2);
               br = (if fst p3 > fst p4 then p3 else p4)
           in Inr (fst tl, snd tl, fst br, snd br)))))
       else if diagonal = ''TRBL'' then
         and_then (get_row coords y_1_idx) (\<lambda>p1.
         and_then (get_row coords y_2_idx) (\<lambda>p2.
         and_then (get_row coords y_3_idx) (\<lambda>p3.
         and_then (get_row coords y_4_idx) (\<lambda>p4.
           let tr = (if fst p1 > fst p2 then p1 else p2);
               bl = (if fst p3 < fst p4 then p3 else p4)
           in Inr (fst tr, snd tr, fst bl, snd bl)))))
       else Inl NoDiagonal)"

subsection \<open>\<^verbatim>\<open>calculate_two_markers\<close>\<close>

text \<open>Line 78: the pixel scale is the average of the two markers' scales.\<close>

definition scale_px_of :: "marker \<Rightarrow> marker \<Rightarrow> real" where
  "scale_px_of m0 m1 = (get_scale m0 + get_scale m1) / 2"

text \<open>Lines 81 to 83: every coordinate is rounded, and the markers' rows are pooled.\<close>

definition clean :: "marker \<Rightarrow> px list" where
  "clean m = map (\<lambda>row. (py_round (fst row), py_round (snd row))) (rows m)"

definition corner_coords_of :: "marker list \<Rightarrow> px list" where
  "corner_coords_of ms = concat (map clean ms)"

text \<open>
  Lines 87 to 101: the marker whose first corner has the smaller x is called the top
  marker; the layout is \<^verbatim>\<open>"TLBR"\<close> when the first corner of that marker has the smaller
  y, and \<^verbatim>\<open>"TRBL"\<close> otherwise. Both comparisons are on the rounded first corners
  \<^verbatim>\<open>corners[0][0]\<close> and \<^verbatim>\<open>corners[1][0]\<close>.
\<close>

definition is_top_marker_left :: "px \<Rightarrow> px \<Rightarrow> bool" where
  "is_top_marker_left a b =
     (let top_marker = (if fst a < fst b then a else b);
          bottom_marker = (if fst a < fst b then b else a)
      in snd top_marker < snd bottom_marker)"

definition layout_of :: "px \<Rightarrow> px \<Rightarrow> string" where
  "layout_of a b = (if is_top_marker_left a b then ''TLBR'' else ''TRBL'')"

definition classify :: "marker \<Rightarrow> marker \<Rightarrow> string" where
  "classify m0 m1 = layout_of (clean m0 ! 0) (clean m1 ! 0)"

text \<open>Lines 104 and 105: the pixel extents of the selected diagonal.\<close>

definition extents_px :: "int \<times> int \<times> int \<times> int \<Rightarrow> int \<times> int" where
  "extents_px d =
     (case d of (t_coord_x, t_coord_y, b_coord_x, b_coord_y) \<Rightarrow>
        (\<bar>t_coord_x - b_coord_x\<bar>, \<bar>t_coord_y - b_coord_y\<bar>))"

text \<open>
  Lines 74 to 105, the part of \<^verbatim>\<open>calculate_two_markers\<close> that works in pixels: the
  count check, the pixel scale, the layout, the selected diagonal and its extents. The
  result is the triple of \<open>scale_px\<close>, \<open>h_px\<close> and \<open>w_px\<close>.
\<close>

definition measure_px :: "detection \<Rightarrow> py_error + (real \<times> int \<times> int)" where
  "measure_px det =
     (case ids det of
        None \<Rightarrow> Inl WrongMarkerCount
      | Some is \<Rightarrow>
          if length is \<noteq> 2 then Inl WrongMarkerCount
          else
            (case corners det of
               m0 # m1 # _ \<Rightarrow>
                 (let scale_px = scale_px_of m0 m1;
                      corner_coords = corner_coords_of (corners det);
                      diagonal = classify m0 m1
                  in and_then (get_diff_two_markers_px corner_coords diagonal) (\<lambda>d.
                       let (h_px, w_px) = extents_px d
                       in Inr (scale_px, h_px, w_px)))
             | _ \<Rightarrow> Inl IndexError))"

text \<open>Line 108: millimetres per pixel, for a pixel scale that is not zero.\<close>

definition scale_mm_of :: "int \<Rightarrow> real \<Rightarrow> real" where
  "scale_mm_of marker_size_mm scale_px = of_int marker_size_mm / scale_px"

text \<open>Lines 110 and 111: from pixels to inches, in exact arithmetic.\<close>

definition to_inches :: "int \<Rightarrow> real \<Rightarrow> real \<Rightarrow> int \<Rightarrow> real" where
  "to_inches marker_size_mm scale_px border_offset_in len_px =
     (of_int len_px * scale_mm_of marker_size_mm scale_px) / MM_IN_RATIO + border_offset_in * 2"

text \<open>Lines 114 and 115: up to the next half inch.\<close>

definition ceil_half :: "real \<Rightarrow> real" where
  "ceil_half v = of_int \<lceil>v * 2\<rceil> / 2"

text \<open>
  The whole function, in exact arithmetic. With a pixel scale of zero the floating-point
  division of line 108 gives an infinity (a NaN for a marker size of zero), its product
  with a pixel extent of zero gives a NaN, and \<^verbatim>\<open>math.ceil\<close> raises at the height,
  in line 114.
\<close>

definition calculate_two_markers :: "detection \<Rightarrow> int \<Rightarrow> real \<Rightarrow> py_error + (real \<times> real)" where
  "calculate_two_markers det marker_size_mm border_offset_in =
     and_then (measure_px det) (\<lambda>(scale_px, h_px, w_px).
       if scale_px = 0 then
         (if marker_size_mm = 0 \<or> h_px = 0 then Inl CeilOfNaN else Inl CeilOfInfinity)
       else
         Inr (ceil_half (to_inches marker_size_mm scale_px border_offset_in h_px),
              ceil_half (to_inches marker_size_mm scale_px border_offset_in w_px)))"

subsection \<open>Lines 108 to 117 in machine arithmetic\<close>

text \<open>
  The program computes lines 108 to 111 in floating point, where a quotient, a product and
  a sum are rounded. An arithmetic gives, for each of the four operations of these lines,
  the number the machine returns for its operands: the quotient of line 108, and the
  product, the quotient by \<^verbatim>\<open>MM_IN_RATIO\<close> and the sum of lines 110 and 111. The first
  operand of line 108 is the marker size and its second the pixel scale of the pixel
  stage; what the floating-point pixel scale and the floating-point constant differ by
  from these is part of what the two quotients return. The results are finite numbers:
  overflow to an infinity is not modelled. Doubling (the border offset in lines 110 and
  111, the raw value in lines 114 and 115), \<^verbatim>\<open>math.ceil\<close> and halving an integer are
  exact in binary floating point.
\<close>

record arithmetic =
  div_scale :: "real \<Rightarrow> real \<Rightarrow> real"
  mul_px :: "real \<Rightarrow> real \<Rightarrow> real"
  div_ratio :: "real \<Rightarrow> real \<Rightarrow> real"
  add_border :: "real \<Rightarrow> real \<Rightarrow> real"

text \<open>The arithmetic of the real numbers.\<close>

definition exact_arithmetic :: arithmetic where
  "exact_arithmetic = \<lparr>div_scale = (/), mul_px = (*), div_ratio = (/), add_border = (+)\<rparr>"

text \<open>Lines 108, 110 and 111 in an arithmetic.\<close>

definition to_inches_in :: "arithmetic \<Rightarrow> int \<Rightarrow> real \<Rightarrow> real \<Rightarrow> int \<Rightarrow> real" where
  "to_inches_in ar marker_size_mm scale_px border_offset_in len_px =
     (let scale_mm = div_scale ar (of_int marker_size_mm) scale_px
      in add_border ar (div_ratio ar (mul_px ar (of_int len_px) scale_mm) MM_IN_RATIO)
           (border_offset_in * 2))"

text \<open>
  The whole function in an arithmetic; \<open>calculate_two_markers\<close> is the instance of the exact
  arithmetic.
\<close>

definition calculate_two_markers_in ::
    "arithmetic \<Rightarrow> detection \<Rightarrow> int \<Rightarrow> real \<Rightarrow> py_error + (real \<times> real)" where
  "calculate_two_markers_in ar det marker_size_mm border_offset_in =
     and_then (measure_px det) (\<lambda>(scale_px, h_px, w_px).
       if scale_px = 0 then
         (if marker_size_mm = 0 \<or> h_px = 0 then Inl CeilOfNaN else Inl CeilOfInfinity)
       else
         Inr (ceil_half (to_inches_in ar marker_size_mm scale_px border_offset_in h_px),
              ceil_half (to_inches_in ar marker_size_mm scale_px border_offset_in w_px)))"

text \<open>
  What the theorems ask of an arithmetic: from operands that are not negative (and a
  positive divisor) it returns a number that is not negative. Floating-point arithmetic
  does so.
\<close>

definition keeps_sign :: "arithmetic \<Rightarrow> bool" where
  "keeps_sign ar \<longleftrightarrow>
     (\<forall>x y. 0 \<le> x \<and> 0 < y \<longrightarrow> 0 \<le> div_scale ar x y)
     \<and> (\<forall>x y. 0 \<le> x \<and> 0 \<le> y \<longrightarrow> 0 \<le> mul_px ar x y)
     \<and> (\<forall>x y. 0 \<le> x \<and> 0 < y \<longrightarrow> 0 \<le> div_ratio ar x y)
     \<and> (\<forall>x y. 0 \<le> x \<and> 0 \<le> y \<longrightarrow> 0 \<le> add_border ar x y)"

subsection \<open>Notions of the specification\<close>

text \<open>A marker is degenerate when its four corners are one and the same point.\<close>

fun degenerate :: "marker \<Rightarrow> bool" where
  "degenerate (Marker c0 c1 c2 c3) = (c0 = c1 \<and> c1 = c2 \<and> c2 = c3)"

text \<open>
  The specification's scale of one marker: the arithmetic mean of the Euclidean lengths
  of the four side vectors \<open>corner[i] - corner[(i + 1) mod 4]\<close>. The Euclidean length of
  a plane vector is the modulus of the complex number with its components.
\<close>

definition side_vector :: "point list \<Rightarrow> nat \<Rightarrow> complex" where
  "side_vector cs i =
     Complex (fst (cs ! i) - fst (cs ! ((i + 1) mod 4))) (snd (cs ! i) - snd (cs ! ((i + 1) mod 4)))"

definition mean_side_length :: "point list \<Rightarrow> real" where
  "mean_side_length cs = (\<Sum>i\<leftarrow>[0..<4]. cmod (side_vector cs i)) / 4"

text \<open>
  The specification's selection of the corner pair. The top pair is found by repeated
  extraction: the row with the smallest y, and the row with the smallest y among the rows
  that remain when that row is removed; the bottom pair likewise with the largest y. Of
  the top pair the row with the smaller x is taken for \<^verbatim>\<open>"TLBR"\<close> and the row with the
  larger x for \<^verbatim>\<open>"TRBL"\<close>; of the bottom pair the row with the larger x for
  \<^verbatim>\<open>"TLBR"\<close> and the row with the smaller x for \<^verbatim>\<open>"TRBL"\<close>.
\<close>

definition smaller_x :: "px \<Rightarrow> px \<Rightarrow> px" where
  "smaller_x p q = (if fst p < fst q then p else q)"

definition larger_x :: "px \<Rightarrow> px \<Rightarrow> px" where
  "larger_x p q = (if fst q < fst p then p else q)"

definition top_pair_spec :: "px list \<Rightarrow> px \<times> px" where
  "top_pair_spec ps =
     (let p = arg_min_list snd ps;
          q = arg_min_list snd (remove1 p ps)
      in (p, q))"

definition bottom_pair_spec :: "px list \<Rightarrow> px \<times> px" where
  "bottom_pair_spec ps =
     (let p = arg_min_list (\<lambda>r. - snd r) ps;
          q = arg_min_list (\<lambda>r. - snd r) (remove1 p ps)
      in (p, q))"

definition corner_pair_spec :: "px list \<Rightarrow> string \<Rightarrow> px \<times> px" where
  "corner_pair_spec ps layout =
     (case (top_pair_spec ps, bottom_pair_spec ps) of
        ((t1, t2), (b1, b2)) \<Rightarrow>
          if layout = ''TLBR'' then (smaller_x t1 t2, larger_x b1 b2)
          else (larger_x t1 t2, smaller_x b1 b2))"

subsection \<open>Auxiliary notions for the proofs\<close>

text \<open>The position of the first element equal to \<open>v\<close>, as a total function.\<close>

primrec first_pos :: "int list \<Rightarrow> int \<Rightarrow> nat" where
  "first_pos [] v = 0"
| "first_pos (x # xs) v = (if x = v then 0 else Suc (first_pos xs v))"

text \<open>The first row of \<open>coords\<close> whose y is \<open>v\<close>.\<close>

definition row_at :: "px list \<Rightarrow> int \<Rightarrow> px" where
  "row_at coords v = coords ! first_pos (map snd coords) v"

text \<open>The four values \<open>y_1\<close>, \<open>y_2\<close>, \<open>y_3\<close> and \<open>y_4\<close> of lines 170 to 182.\<close>

definition extreme_ys :: "int list \<Rightarrow> int \<times> int \<times> int \<times> int" where
  "extreme_ys ys =
     (let y_1 = Min (set ys);
          tmp = remove1 y_1 ys;
          y_2 = Min (set tmp);
          y_3 = Max (set tmp);
          tmp2 = remove1 y_3 tmp;
          y_4 = Max (set tmp2)
      in (y_1, y_2, y_3, y_4))"

subsection \<open>Example inputs\<close>

text \<open>An upright square marker of side 40 whose first corner is at \<open>(x, y)\<close>.\<close>

definition square40 :: "real \<Rightarrow> real \<Rightarrow> marker" where
  "square40 x y = Marker (x, y) (x + 40, y) (x + 40, y + 40) (x, y + 40)"

text \<open>Two such markers in the top left and the bottom right corner of a 400 by 300 window.\<close>

definition window_tlbr :: detection where
  "window_tlbr = \<lparr>corners = [square40 0 0, square40 360 260], ids = Some [0, 1]\<rparr>"

text \<open>
  A marker whose four corners are one point, a detection of it beside a square marker and
  a detection of two of it.
\<close>

definition collapsed :: marker where
  "collapsed = Marker (0, 0) (0, 0) (0, 0) (0, 0)"

definition window_one_collapsed :: detection where
  "window_one_collapsed = \<lparr>corners = [collapsed, square40 360 260], ids = Some [0, 1]\<rparr>"

definition window_both_collapsed :: detection where
  "window_both_collapsed = \<lparr>corners = [collapsed, collapsed], ids = Some [0, 1]\<rparr>"

text \<open>
  The pooled rows of two upright square markers in the top right and the bottom left corner
  of a 440 by 300 window: the two upper corners of a marker have the same y.
\<close>

definition tied_rows :: "px list" where
  "tied_rows = [(400, 0), (440, 0), (440, 40), (400, 40), (0, 260), (40, 260), (40, 300), (0, 300)]"

text \<open>The detection whose pooled rows these are.\<close>

definition window_trbl :: detection where
  "window_trbl = \<lparr>corners = [square40 400 0, square40 0 260], ids = Some [0, 1]\<rparr>"

text \<open>
  A marker seen at a slant, with sides of 50 and 40 pixels and four different y; two of them
  one above the other, in both orders of detection.
\<close>

definition slanted :: "real \<Rightarrow> real \<Rightarrow> marker" where
  "slanted x y = Marker (x, y) (x + 40, y + 30) (x + 40, y + 70) (x, y + 40)"

definition stacked :: detection where
  "stacked = \<lparr>corners = [slanted 10 0, slanted 10 200], ids = Some [0, 1]\<rparr>"

definition stacked_swapped :: detection where
  "stacked_swapped = \<lparr>corners = [slanted 10 200, slanted 10 0], ids = Some [1, 0]\<rparr>"

text \<open>The window of the scenario with its two markers detected in the other order.\<close>

definition window_tlbr_swapped :: detection where
  "window_tlbr_swapped = \<lparr>corners = [square40 360 260, square40 0 0], ids = Some [1, 0]\<rparr>"

text \<open>
  An arithmetic whose quotient by \<^verbatim>\<open>MM_IN_RATIO\<close> errs upwards by \<open>1 / 10 ^ 15\<close>, and a
  window whose height is 5 inches exactly: 254 pixels at half a millimetre each.
\<close>

definition nudged_arithmetic :: arithmetic where
  "nudged_arithmetic =
     \<lparr>div_scale = (/), mul_px = (*), div_ratio = (\<lambda>x y. x / y + 1 / 10 ^ 15), add_border = (+)\<rparr>"

definition window_254 :: detection where
  "window_254 = \<lparr>corners = [square40 0 0, square40 214 260], ids = Some [0, 1]\<rparr>"

section \<open>Properties\<close>

subsection \<open>Steps that may raise\<close>

lemma and_then_Inr [simp]: "and_then (Inr v) f = f v"
  by (simp add: and_then_def)

lemma and_then_Inl [simp]: "and_then (Inl e) f = Inl e"
  by (simp add: and_then_def)

lemma and_then_eq_Inr: "and_then r f = Inr y \<longleftrightarrow> (\<exists>v. r = Inr v \<and> f v = Inr y)"
  by (cases r) simp_all

lemma and_then_eq_Inl: "and_then r f = Inl e \<longleftrightarrow> r = Inl e \<or> (\<exists>v. r = Inr v \<and> f v = Inl e)"
  by (cases r) simp_all

lemma py_min_eq: "py_min xs = (if xs = [] then Inl EmptySequence else Inr (Min (set xs)))"
proof (cases xs)
  case Nil
  then show ?thesis by (simp add: py_min_def)
next
  case (Cons a r)
  then show ?thesis using Min.set_eq_fold [of a r] by (simp add: py_min_def)
qed

lemma py_max_eq: "py_max xs = (if xs = [] then Inl EmptySequence else Inr (Max (set xs)))"
proof (cases xs)
  case Nil
  then show ?thesis by (simp add: py_max_def)
next
  case (Cons a r)
  then show ?thesis using Max.set_eq_fold [of a r] by (simp add: py_max_def)
qed

lemma list_index_Inl: "list_index ys v = Inl e \<Longrightarrow> e = NotInList"
  by (induction ys arbitrary: e) (auto split: sum.splits if_splits)

lemma extreme_indices_Inl:
  "extreme_indices cs = Inl e \<Longrightarrow> e = EmptySequence \<or> e = NotInList"
  unfolding extreme_indices_def Let_def
  by (auto simp: and_then_eq_Inl py_min_eq py_max_eq list_remove_def
           dest: list_index_Inl split: if_splits)

lemma get_diff_Inl:
  "get_diff_two_markers_px cs d = Inl e \<Longrightarrow> e \<in> {EmptySequence, NotInList, IndexError, NoDiagonal}"
  unfolding get_diff_two_markers_px_def
  by (auto simp: and_then_eq_Inl get_row_def dest: extreme_indices_Inl
           split: if_splits prod.splits)

subsection \<open>The four extreme positions\<close>

lemma list_index_eq:
  "list_index ys v = (if v \<in> set ys then Inr (first_pos ys v) else Inl NotInList)"
  by (induction ys) auto

lemma first_pos_less: "v \<in> set ys \<Longrightarrow> first_pos ys v < length ys"
  by (induction ys) auto

lemma nth_first_pos: "v \<in> set ys \<Longrightarrow> ys ! first_pos ys v = v"
  by (induction ys) auto

lemma first_pos_least: "j < first_pos ys v \<Longrightarrow> ys ! j \<noteq> v"
proof (induction ys arbitrary: j)
  case Nil
  then show ?case by simp
next
  case (Cons x xs)
  then show ?case by (cases j) (auto split: if_splits)
qed

lemma extreme_ys_mem:
  assumes "3 \<le> length ys" and "extreme_ys ys = (y1, y2, y3, y4)"
  shows "y1 \<in> set ys" "y2 \<in> set ys" "y3 \<in> set ys" "y4 \<in> set ys"
    "y2 \<in> set (remove1 y1 ys)" "y3 \<in> set (remove1 y1 ys)"
    "y4 \<in> set (remove1 y3 (remove1 y1 ys))"
proof -
  have ne: "ys \<noteq> []" using assms(1) by auto
  have y1: "y1 = Min (set ys)" using assms(2) by (simp add: extreme_ys_def Let_def)
  then show m1: "y1 \<in> set ys" using ne by simp
  have l1: "length (remove1 y1 ys) = length ys - 1" using m1 by (simp add: length_remove1)
  then have ne1: "remove1 y1 ys \<noteq> []" using assms(1) by auto
  have "y2 = Min (set (remove1 y1 ys))" using assms(2) y1 by (simp add: extreme_ys_def Let_def)
  then show m2: "y2 \<in> set (remove1 y1 ys)" using ne1 by simp
  then show "y2 \<in> set ys" using set_remove1_subset [of y1 ys] by auto
  have "y3 = Max (set (remove1 y1 ys))" using assms(2) y1 by (simp add: extreme_ys_def Let_def)
  then show m3: "y3 \<in> set (remove1 y1 ys)" using ne1 by simp
  then show "y3 \<in> set ys" using set_remove1_subset [of y1 ys] set_remove1_subset [of y3 "remove1 y1 ys"] by auto
  have "length (remove1 y3 (remove1 y1 ys)) = length ys - 2"
    using m3 l1 by (simp add: length_remove1)
  then have ne2: "remove1 y3 (remove1 y1 ys) \<noteq> []" using assms(1) by auto
  have "y4 = Max (set (remove1 y3 (remove1 y1 ys)))"
    using assms(2) y1 \<open>y3 = _\<close> by (simp add: extreme_ys_def Let_def)
  then show m4: "y4 \<in> set (remove1 y3 (remove1 y1 ys))" using ne2 by simp
  then have "y4 \<in> set (remove1 y1 ys)" using set_remove1_subset [of y1 ys] set_remove1_subset [of y3 "remove1 y1 ys"] by auto
  then show "y4 \<in> set ys" using set_remove1_subset [of y1 ys] set_remove1_subset [of y3 "remove1 y1 ys"] by auto
qed

lemma extreme_indices_eq:
  assumes "3 \<le> length cs" and "extreme_ys (map snd cs) = (y1, y2, y3, y4)"
  shows "extreme_indices cs =
         Inr (first_pos (map snd cs) y1, first_pos (map snd cs) y2,
              first_pos (map snd cs) y3, first_pos (map snd cs) y4)"
proof -
  let ?ys = "map snd cs"
  have len: "3 \<le> length ?ys" using assms(1) by simp
  note mem = extreme_ys_mem [OF len assms(2)]
  have ne: "?ys \<noteq> []" "remove1 y1 ?ys \<noteq> []" "remove1 y3 (remove1 y1 ?ys) \<noteq> []"
    using mem by auto
  have ys: "Min (set ?ys) = y1" "Min (set (remove1 y1 ?ys)) = y2"
    "Max (set (remove1 y1 ?ys)) = y3" "Max (set (remove1 y3 (remove1 y1 ?ys))) = y4"
    using assms(2) by (auto simp: extreme_ys_def Let_def)
  show ?thesis
    unfolding extreme_indices_def Let_def
    using ne mem ys by (simp add: py_min_eq py_max_eq list_index_eq list_remove_def)
qed

subsection \<open>Scale and rounding\<close>

lemma linalg_norm_nonneg: "0 \<le> linalg_norm v"
  by (simp add: linalg_norm_def)

lemma linalg_norm_zero_iff: "linalg_norm (vec_sub p q) = 0 \<longleftrightarrow> p = q"
  by (auto simp: linalg_norm_def vec_sub_def prod_eq_iff sum_power2_eq_zero_iff)

lemma linalg_norm_cmod: "linalg_norm v = cmod (Complex (fst v) (snd v))"
  by (simp add: linalg_norm_def cmod_def)

lemma get_scale_nonneg: "0 \<le> get_scale m"
  by (cases m) (simp add: np_average_def linalg_norm_nonneg)

lemma get_scale_zero_iff: "get_scale m = 0 \<longleftrightarrow> degenerate m"
proof (cases m)
  case (Marker c0 c1 c2 c3)
  have nn: "0 \<le> linalg_norm (vec_sub c0 c1)" "0 \<le> linalg_norm (vec_sub c1 c2)"
    "0 \<le> linalg_norm (vec_sub c2 c3)" "0 \<le> linalg_norm (vec_sub c3 c0)"
    by (rule linalg_norm_nonneg)+
  have "get_scale m = 0 \<longleftrightarrow>
        linalg_norm (vec_sub c0 c1) = 0 \<and> linalg_norm (vec_sub c1 c2) = 0 \<and>
        linalg_norm (vec_sub c2 c3) = 0 \<and> linalg_norm (vec_sub c3 c0) = 0"
    using nn by (auto simp: Marker np_average_def)
  then show ?thesis
    by (auto simp: Marker linalg_norm_zero_iff)
qed

lemma get_scale_mean: "get_scale m = mean_side_length (rows m)"
  by (cases m) (simp add: mean_side_length_def side_vector_def np_average_def
      linalg_norm_cmod vec_sub_def upt_rec)


lemma ceil_half_ge: "v \<le> ceil_half v"
  unfolding ceil_half_def by linarith

lemma ceil_half_lt: "ceil_half v - v < 1 / 2"
  unfolding ceil_half_def by linarith

lemma ceil_half_nonneg: "0 \<le> v \<Longrightarrow> \<exists>k::nat. ceil_half v = real k / 2"
proof -
  assume "0 \<le> v"
  then have "0 \<le> \<lceil>v * 2\<rceil>" by simp
  then have "ceil_half v = real (nat \<lceil>v * 2\<rceil>) / 2"
    by (simp add: ceil_half_def)
  then show ?thesis ..
qed

lemma to_inches_nonneg:
  "0 \<le> s \<Longrightarrow> 0 < scale \<Longrightarrow> 0 \<le> b \<Longrightarrow> 0 \<le> len \<Longrightarrow> 0 \<le> to_inches s scale b len"
  by (simp add: to_inches_def scale_mm_of_def MM_IN_RATIO_def)

lemma py_round_of_int [simp]: "py_round (of_int k) = k"
  by (simp add: py_round_def)

lemma py_round_numeral [simp]: "py_round (numeral k) = numeral k"
  using py_round_of_int [of "numeral k"] by simp

lemma py_round_zero [simp]: "py_round 0 = 0"
  using py_round_of_int [of 0] by simp

lemma norm_axis [simp]: "linalg_norm (a, 0) = \<bar>a\<bar>" "linalg_norm (0, a) = \<bar>a\<bar>"
  by (simp_all add: linalg_norm_def)

lemma get_scale_square40 [simp]: "get_scale (square40 x y) = 40"
  by (simp add: square40_def np_average_def vec_sub_def)

lemma not_degenerate_square40 [simp]: "\<not> degenerate (square40 x y)"
  by (simp add: square40_def)

lemma clean_square40:
  "clean (square40 (of_int x) (of_int y)) = [(x, y), (x + 40, y), (x + 40, y + 40), (x, y + 40)]"
proof -
  have "py_round (of_int x + 40) = x + 40" "py_round (of_int y + 40) = y + 40"
    using py_round_of_int [of "x + 40"] py_round_of_int [of "y + 40"] by simp_all
  then show ?thesis by (simp add: clean_def square40_def)
qed

subsection \<open>The pixel stage on two markers\<close>

lemma get_row_row_at:
  "v \<in> set (map snd cs) \<Longrightarrow> get_row cs (first_pos (map snd cs) v) = Inr (row_at cs v)"
  using first_pos_less [of v "map snd cs"] by (simp add: get_row_def row_at_def)

lemma get_diff_eq:
  assumes "3 \<le> length cs" and "extreme_ys (map snd cs) = (y1, y2, y3, y4)"
  shows "get_diff_two_markers_px cs d =
         (if d = ''TLBR'' then
            (let tl = (if fst (row_at cs y1) < fst (row_at cs y2) then row_at cs y1 else row_at cs y2);
                 br = (if fst (row_at cs y3) > fst (row_at cs y4) then row_at cs y3 else row_at cs y4)
             in Inr (fst tl, snd tl, fst br, snd br))
          else if d = ''TRBL'' then
            (let tr = (if fst (row_at cs y1) > fst (row_at cs y2) then row_at cs y1 else row_at cs y2);
                 bl = (if fst (row_at cs y3) < fst (row_at cs y4) then row_at cs y3 else row_at cs y4)
             in Inr (fst tr, snd tr, fst bl, snd bl))
          else Inl NoDiagonal)"
proof -
  have len: "3 \<le> length (map snd cs)" using assms(1) by simp
  note mem = extreme_ys_mem(1-4) [OF len assms(2)]
  show ?thesis
    unfolding get_diff_two_markers_px_def extreme_indices_eq [OF assms]
    using mem by (simp add: get_row_row_at del: set_map)
qed

lemma get_diff_total:
  assumes "3 \<le> length cs" and "d = ''TLBR'' \<or> d = ''TRBL''"
  shows "\<exists>r. get_diff_two_markers_px cs d = Inr r"
proof -
  obtain y1 y2 y3 y4 where "extreme_ys (map snd cs) = (y1, y2, y3, y4)"
    by (metis prod_cases4)
  from get_diff_eq [OF assms(1) this, of d] assms(2) show ?thesis
    by (auto simp: Let_def)
qed

lemma length_clean [simp]: "length (clean m) = 4"
  by (cases m) (simp add: clean_def)

lemma classify_cases: "classify m0 m1 = ''TLBR'' \<or> classify m0 m1 = ''TRBL''"
  by (simp add: classify_def layout_of_def)

lemma extents_px_nonneg: "extents_px d = (h, w) \<Longrightarrow> 0 \<le> h \<and> 0 \<le> w"
  by (auto simp: extents_px_def split: prod.splits)

lemma measure_px_two:
  assumes "corners det = [m0, m1]" and "ids det = Some is" and "length is = 2"
  shows "\<exists>d. get_diff_two_markers_px (clean m0 @ clean m1) (classify m0 m1) = Inr d
           \<and> measure_px det = Inr (scale_px_of m0 m1, extents_px d)"
proof -
  have "3 \<le> length (clean m0 @ clean m1)" by simp
  from get_diff_total [OF this classify_cases [of m0 m1]]
  obtain d where d: "get_diff_two_markers_px (clean m0 @ clean m1) (classify m0 m1) = Inr d" ..
  then have "measure_px det = Inr (scale_px_of m0 m1, extents_px d)"
    using assms by (simp add: measure_px_def corner_coords_of_def split: prod.splits)
  with d show ?thesis by blast
qed

lemma scale_px_of_zero_iff: "scale_px_of m0 m1 = 0 \<longleftrightarrow> degenerate m0 \<and> degenerate m1"
  using get_scale_nonneg [of m0] get_scale_nonneg [of m1]
    get_scale_zero_iff [of m0] get_scale_zero_iff [of m1]
  by (auto simp: scale_px_of_def)

lemma scale_px_of_nonneg: "0 \<le> scale_px_of m0 m1"
  using get_scale_nonneg [of m0] get_scale_nonneg [of m1] by (simp add: scale_px_of_def)

lemma clean_window_tlbr:
  "clean (square40 0 0) = [(0, 0), (40, 0), (40, 40), (0, 40)]"
  "clean (square40 360 260) = [(360, 260), (400, 260), (400, 300), (360, 300)]"
  using clean_square40 [of 0 0] clean_square40 [of 360 260] by simp_all

lemma measure_px_window_tlbr: "measure_px window_tlbr = Inr (40, 400, 300)"
  by (simp add: measure_px_def window_tlbr_def scale_px_of_def corner_coords_of_def
      clean_window_tlbr classify_def layout_of_def is_top_marker_left_def
      get_diff_two_markers_px_def extreme_indices_def py_min_def py_max_def list_remove_def
      get_row_def extents_px_def)

subsection \<open>The marker count\<close>

lemma measure_px_count:
  "measure_px det = Inl WrongMarkerCount \<longleftrightarrow> \<not> (\<exists>is. ids det = Some is \<and> length is = 2)"
  unfolding measure_px_def
  by (auto simp: and_then_eq_Inl Let_def dest: get_diff_Inl
           split: option.splits list.splits prod.splits)

text \<open>
  C6. \<^verbatim>\<open>calculate_two_markers\<close> raises the wrong-marker-count error exactly when the
  detector reported no identifiers or a number of identifiers other than two. The corner
  arrays, the marker size and the border offset play no part: the error is the result
  also where every later step would raise or divide by zero, so no geometric step runs
  before the check.
\<close>

theorem wrong_marker_count_raises:
  "calculate_two_markers det marker_size_mm border_offset_in = Inl WrongMarkerCount
   \<longleftrightarrow> \<not> (\<exists>is. ids det = Some is \<and> length is = 2)"
  unfolding calculate_two_markers_def
  by (auto simp: and_then_eq_Inl measure_px_count split: prod.splits if_splits)

theorem wrong_marker_count_raises_witness:
  "calculate_two_markers \<lparr>corners = [], ids = None\<rparr> 20 0 = Inl WrongMarkerCount
   \<and> calculate_two_markers \<lparr>corners = [square40 0 0], ids = Some [7]\<rparr> 20 0 = Inl WrongMarkerCount
   \<and> calculate_two_markers
        \<lparr>corners = [square40 0 0, square40 90 0, square40 360 260], ids = Some [0, 1, 2]\<rparr> 20 0
      = Inl WrongMarkerCount"
  using wrong_marker_count_raises [of "\<lparr>corners = [], ids = None\<rparr>" 20 0]
        wrong_marker_count_raises [of "\<lparr>corners = [square40 0 0], ids = Some [7]\<rparr>" 20 0]
        wrong_marker_count_raises
          [of "\<lparr>corners = [square40 0 0, square40 90 0, square40 360 260], ids = Some [0, 1, 2]\<rparr>" 20 0]
  by simp

subsection \<open>The pixel scale\<close>

text \<open>
  C4. \<^verbatim>\<open>get_scale\<close> of a marker is the arithmetic mean of the Euclidean lengths of
  its four side vectors \<open>corner[i] - corner[(i + 1) mod 4]\<close>, and on a detection of two
  markers the pixel scale that \<^verbatim>\<open>calculate_two_markers\<close> works with is the average of
  the two markers' values of \<^verbatim>\<open>get_scale\<close>.
\<close>

theorem scale_is_mean_side_length:
  "get_scale m = mean_side_length (rows m)
   \<and> (corners det = [m0, m1] \<and> ids det = Some is \<and> length is = 2 \<longrightarrow>
        (\<exists>h_px w_px. measure_px det =
           Inr ((get_scale m0 + get_scale m1) / 2, h_px, w_px)
           \<and> (get_scale m0 + get_scale m1) / 2 =
             (mean_side_length (rows m0) + mean_side_length (rows m1)) / 2))"
proof (intro conjI impI)
  show "get_scale m = mean_side_length (rows m)" by (rule get_scale_mean)
next
  assume "corners det = [m0, m1] \<and> ids det = Some is \<and> length is = 2"
  then obtain d where "measure_px det = Inr (scale_px_of m0 m1, extents_px d)"
    using measure_px_two [of det m0 m1 "is"] by blast
  then show "\<exists>h_px w_px. measure_px det =
           Inr ((get_scale m0 + get_scale m1) / 2, h_px, w_px)
           \<and> (get_scale m0 + get_scale m1) / 2 =
             (mean_side_length (rows m0) + mean_side_length (rows m1)) / 2"
    by (cases "extents_px d") (simp add: scale_px_of_def get_scale_mean)
qed

theorem scale_is_mean_side_length_witness:
  "get_scale (square40 0 0) = mean_side_length (rows (square40 0 0))
   \<and> (\<exists>h_px w_px. measure_px window_tlbr =
         Inr ((get_scale (square40 0 0) + get_scale (square40 360 260)) / 2, h_px, w_px)
         \<and> (get_scale (square40 0 0) + get_scale (square40 360 260)) / 2 =
           (mean_side_length (rows (square40 0 0)) + mean_side_length (rows (square40 360 260))) / 2)"
  using scale_is_mean_side_length [of "square40 0 0" window_tlbr "square40 0 0" "square40 360 260" "[0, 1]"]
  by (simp add: window_tlbr_def)

subsection \<open>From pixels to inches\<close>

lemma calculate_eq:
  assumes "measure_px det = Inr (scale_px, h_px, w_px)" and "scale_px \<noteq> 0"
  shows "calculate_two_markers det s b =
         Inr (ceil_half (to_inches s scale_px b h_px), ceil_half (to_inches s scale_px b w_px))"
  using assms by (simp add: calculate_two_markers_def)

lemma ceil_half_8: "ceil_half (to_inches 20 40 0 400) = 8"
  by (simp add: ceil_half_def to_inches_def scale_mm_of_def MM_IN_RATIO_def)

lemma ceil_half_6: "ceil_half (to_inches 20 40 0 300) = 6"
  by (simp add: ceil_half_def to_inches_def scale_mm_of_def MM_IN_RATIO_def)

lemma ceil_half_16: "ceil_half (to_inches 40 40 0 400) = 16"
  by (simp add: ceil_half_def to_inches_def scale_mm_of_def MM_IN_RATIO_def)

lemma ceil_half_12: "ceil_half (to_inches 40 40 0 300) = 12"
  by (simp add: ceil_half_def to_inches_def scale_mm_of_def MM_IN_RATIO_def)

lemma get_diff_window_tlbr:
  "get_diff_two_markers_px (clean (square40 0 0) @ clean (square40 360 260))
     (classify (square40 0 0) (square40 360 260)) = Inr (0, 0, 400, 300)"
  by (simp add: clean_window_tlbr classify_def layout_of_def is_top_marker_left_def
      get_diff_two_markers_px_def extreme_indices_def py_min_def py_max_def list_remove_def
      get_row_def)

text \<open>
  C5. In a detection of two markers with pixel scale 40 whose selected diagonal spans 400
  pixels in x and 300 pixels in y, with a marker size of 20 mm and no border offset: the
  pixel stage takes the height from the x-spread and the width from the y-spread, one pixel
  is half a millimetre, the raw values are 200 mm and 150 mm in inches, and the result is
  8 inches by 6 inches.
\<close>

theorem concrete_scenario:
  assumes "corners det = [m0, m1]" and "ids det = Some is" and "length is = 2"
    and "scale_px_of m0 m1 = 40"
    and "get_diff_two_markers_px (clean m0 @ clean m1) (classify m0 m1) = Inr (t_x, t_y, b_x, b_y)"
    and "\<bar>t_x - b_x\<bar> = 400" and "\<bar>t_y - b_y\<bar> = 300"
  shows "measure_px det = Inr (40, \<bar>t_x - b_x\<bar>, \<bar>t_y - b_y\<bar>)
         \<and> scale_mm_of 20 40 = 1 / 2
         \<and> to_inches 20 40 0 400 = 200 / MM_IN_RATIO
         \<and> to_inches 20 40 0 300 = 150 / MM_IN_RATIO
         \<and> calculate_two_markers det 20 0 = Inr (8, 6)"
proof -
  have m: "measure_px det = Inr (40, 400, 300)"
    using assms by (simp add: measure_px_def corner_coords_of_def extents_px_def)
  have "calculate_two_markers det 20 0 = Inr (8, 6)"
    using calculate_eq [OF m, of 20 0] by (simp add: ceil_half_8 ceil_half_6)
  moreover have "scale_mm_of 20 40 = 1 / 2" by (simp add: scale_mm_of_def)
  moreover have "to_inches 20 40 0 400 = 200 / MM_IN_RATIO" "to_inches 20 40 0 300 = 150 / MM_IN_RATIO"
    by (simp_all add: to_inches_def scale_mm_of_def)
  ultimately show ?thesis using m assms(6,7) by simp
qed

theorem concrete_scenario_witness:
  "measure_px window_tlbr = Inr (40, \<bar>0 - 400\<bar>, \<bar>0 - 300\<bar>)
   \<and> scale_mm_of 20 40 = 1 / 2
   \<and> to_inches 20 40 0 400 = 200 / MM_IN_RATIO
   \<and> to_inches 20 40 0 300 = 150 / MM_IN_RATIO
   \<and> calculate_two_markers window_tlbr 20 0 = Inr (8, 6)"
  using concrete_scenario [of window_tlbr "square40 0 0" "square40 360 260" "[0, 1]" 0 0 400 300]
    get_diff_window_tlbr
  by (simp add: window_tlbr_def scale_px_of_def)

lemma to_inches_in_exact:
  "to_inches_in exact_arithmetic s scale_px b len_px = to_inches s scale_px b len_px"
  by (simp add: to_inches_in_def to_inches_def scale_mm_of_def exact_arithmetic_def)

lemma calculate_two_markers_in_exact:
  "calculate_two_markers_in exact_arithmetic det s b = calculate_two_markers det s b"
  by (cases "measure_px det")
     (simp_all add: calculate_two_markers_in_def calculate_two_markers_def to_inches_in_exact
        split: prod.splits)

lemma keeps_sign_exact: "keeps_sign exact_arithmetic"
  by (simp add: keeps_sign_def exact_arithmetic_def)

lemma keeps_sign_nudged: "keeps_sign nudged_arithmetic"
  by (simp add: keeps_sign_def nudged_arithmetic_def)

lemma to_inches_in_nonneg:
  assumes "keeps_sign ar" and "0 \<le> s" and "0 < scale" and "0 \<le> b" and "0 \<le> len"
  shows "0 \<le> to_inches_in ar s scale b len"
proof -
  have 1: "0 \<le> div_scale ar (of_int s) scale" using assms by (simp add: keeps_sign_def)
  have 2: "0 \<le> mul_px ar (of_int len) (div_scale ar (of_int s) scale)"
    using assms(1,5) 1 by (simp add: keeps_sign_def)
  have 3: "0 \<le> div_ratio ar (mul_px ar (of_int len) (div_scale ar (of_int s) scale)) MM_IN_RATIO"
    using assms(1) 2 by (simp add: keeps_sign_def MM_IN_RATIO_def)
  show ?thesis
    using assms(1,4) 3 by (simp add: to_inches_in_def keeps_sign_def)
qed

lemma calculate_in_eq:
  assumes "measure_px det = Inr (scale_px, h_px, w_px)" and "scale_px \<noteq> 0"
  shows "calculate_two_markers_in ar det s b =
         Inr (ceil_half (to_inches_in ar s scale_px b h_px),
              ceil_half (to_inches_in ar s scale_px b w_px))"
  using assms by (simp add: calculate_two_markers_in_def)

lemma ceil_half_int: "\<exists>k::int. ceil_half v = of_int k / 2"
  unfolding ceil_half_def by blast

lemma clean_window_254:
  "clean (square40 214 260) = [(214, 260), (254, 260), (254, 300), (214, 300)]"
  using clean_square40 [of 214 260] by simp

lemma measure_px_window_254: "measure_px window_254 = Inr (40, 254, 300)"
  by (simp add: measure_px_def window_254_def scale_px_of_def corner_coords_of_def
      clean_window_tlbr clean_window_254 classify_def layout_of_def is_top_marker_left_def
      get_diff_two_markers_px_def extreme_indices_def py_min_def py_max_def list_remove_def
      get_row_def extents_px_def)

lemma to_inches_window_254:
  "to_inches 20 40 0 254 = 5"
  "to_inches_in nudged_arithmetic 20 40 0 254 = 5 + 1 / 10 ^ 15"
  by (simp_all add: to_inches_def scale_mm_of_def to_inches_in_def nudged_arithmetic_def
      MM_IN_RATIO_def)

lemma ceil_half_window_254:
  "ceil_half (to_inches 20 40 0 254) = 5"
  "ceil_half (to_inches_in nudged_arithmetic 20 40 0 254) = 11 / 2"
  "ceil_half (to_inches_in nudged_arithmetic 20 40 0 300) = 6"
  by (simp_all add: ceil_half_def to_inches_def scale_mm_of_def to_inches_in_def
      nudged_arithmetic_def MM_IN_RATIO_def)

text \<open>
  C1, as the specification has it, fails: nothing keeps the marker size from being
  negative, and on the window of the scenario a marker size of -20 gives -7.5 by -5.5
  inches.
\<close>

theorem negative_size_counterexample:
  "\<not> degenerate (square40 0 0) \<and> \<not> degenerate (square40 360 260)
   \<and> calculate_two_markers window_tlbr (- 20) 0 = Inr (- 15 / 2, - 11 / 2)"
proof -
  have "ceil_half (to_inches (- 20) 40 0 400) = - 15 / 2"
    "ceil_half (to_inches (- 20) 40 0 300) = - 11 / 2"
    by (simp_all add: ceil_half_def to_inches_def scale_mm_of_def MM_IN_RATIO_def)
  then show ?thesis
    using calculate_eq [OF measure_px_window_tlbr, of "- 20" 0] by simp
qed

text \<open>
  C1, amended. On a detection of exactly two markers, neither of them degenerate, and in
  every arithmetic, \<^verbatim>\<open>calculate_two_markers\<close> returns a pair. Each returned value
  \<open>r\<close> is \<open>ceil(v * 2) / 2\<close> of the raw value \<open>v\<close> that lines 110 and 111 gave in that
  arithmetic: it is not below \<open>v\<close>, less than a half above it, and a multiple of one
  half. When the marker size and the border offset are not negative and the arithmetic
  keeps the sign, \<open>v\<close> and \<open>r\<close> are not negative.
\<close>

theorem rounds_up_to_half_inch:
  assumes "corners det = [m0, m1]" and "ids det = Some is" and "length is = 2"
    and "\<not> degenerate m0" and "\<not> degenerate m1"
  shows "\<exists>scale_px h_px w_px v_h v_w r_h r_w.
           measure_px det = Inr (scale_px, h_px, w_px)
           \<and> v_h = to_inches_in ar marker_size_mm scale_px border_offset_in h_px
           \<and> v_w = to_inches_in ar marker_size_mm scale_px border_offset_in w_px
           \<and> calculate_two_markers_in ar det marker_size_mm border_offset_in = Inr (r_h, r_w)
           \<and> r_h = of_int \<lceil>v_h * 2\<rceil> / 2 \<and> r_w = of_int \<lceil>v_w * 2\<rceil> / 2
           \<and> v_h \<le> r_h \<and> r_h - v_h < 1 / 2 \<and> v_w \<le> r_w \<and> r_w - v_w < 1 / 2
           \<and> (\<exists>k::int. r_h = of_int k / 2) \<and> (\<exists>k::int. r_w = of_int k / 2)
           \<and> (0 \<le> marker_size_mm \<and> 0 \<le> border_offset_in \<and> keeps_sign ar \<longrightarrow>
                0 \<le> v_h \<and> 0 \<le> v_w \<and> 0 \<le> r_h \<and> 0 \<le> r_w
                \<and> (\<exists>k::nat. r_h = real k / 2) \<and> (\<exists>k::nat. r_w = real k / 2))"
proof -
  obtain d where m: "measure_px det = Inr (scale_px_of m0 m1, extents_px d)"
    using measure_px_two [OF assms(1-3)] by blast
  obtain h_px w_px where e: "extents_px d = (h_px, w_px)" by (cases "extents_px d")
  have px: "0 \<le> h_px" "0 \<le> w_px" using extents_px_nonneg [OF e] by simp_all
  have pos: "0 < scale_px_of m0 m1"
    using scale_px_of_nonneg [of m0 m1] scale_px_of_zero_iff [of m0 m1] assms(4) by force
  let ?v_h = "to_inches_in ar marker_size_mm (scale_px_of m0 m1) border_offset_in h_px"
  let ?v_w = "to_inches_in ar marker_size_mm (scale_px_of m0 m1) border_offset_in w_px"
  have c: "calculate_two_markers_in ar det marker_size_mm border_offset_in
           = Inr (ceil_half ?v_h, ceil_half ?v_w)"
    using calculate_in_eq [of det "scale_px_of m0 m1" h_px w_px] m e pos by simp
  have s: "0 \<le> marker_size_mm \<and> 0 \<le> border_offset_in \<and> keeps_sign ar \<longrightarrow>
           0 \<le> ?v_h \<and> 0 \<le> ?v_w \<and> 0 \<le> ceil_half ?v_h \<and> 0 \<le> ceil_half ?v_w
           \<and> (\<exists>k::nat. ceil_half ?v_h = real k / 2) \<and> (\<exists>k::nat. ceil_half ?v_w = real k / 2)"
  proof
    assume a: "0 \<le> marker_size_mm \<and> 0 \<le> border_offset_in \<and> keeps_sign ar"
    then have nn: "0 \<le> ?v_h" "0 \<le> ?v_w"
      using to_inches_in_nonneg [of ar marker_size_mm "scale_px_of m0 m1" border_offset_in] pos px
      by simp_all
    then have "0 \<le> ceil_half ?v_h" "0 \<le> ceil_half ?v_w"
      using ceil_half_ge [of ?v_h] ceil_half_ge [of ?v_w] by linarith+
    then show "0 \<le> ?v_h \<and> 0 \<le> ?v_w \<and> 0 \<le> ceil_half ?v_h \<and> 0 \<le> ceil_half ?v_w
           \<and> (\<exists>k::nat. ceil_half ?v_h = real k / 2) \<and> (\<exists>k::nat. ceil_half ?v_w = real k / 2)"
      using nn ceil_half_nonneg [OF nn(1)] ceil_half_nonneg [OF nn(2)] by simp
  qed
  show ?thesis
    using m e c s ceil_half_ge [of ?v_h] ceil_half_ge [of ?v_w]
      ceil_half_lt [of ?v_h] ceil_half_lt [of ?v_w]
      ceil_half_int [of ?v_h] ceil_half_int [of ?v_w]
    by (simp add: ceil_half_def [symmetric])
qed

theorem rounds_up_to_half_inch_witness:
  "\<not> degenerate (square40 0 0) \<and> \<not> degenerate (square40 360 260)
   \<and> \<not> degenerate (square40 214 260)
   \<and> keeps_sign exact_arithmetic \<and> keeps_sign nudged_arithmetic
   \<and> (\<exists>scale_px h_px w_px v_h v_w r_h r_w.
         measure_px window_tlbr = Inr (scale_px, h_px, w_px)
         \<and> v_h = to_inches_in exact_arithmetic 20 scale_px (1 / 8) h_px
         \<and> v_w = to_inches_in exact_arithmetic 20 scale_px (1 / 8) w_px
         \<and> calculate_two_markers_in exact_arithmetic window_tlbr 20 (1 / 8) = Inr (r_h, r_w)
         \<and> r_h = of_int \<lceil>v_h * 2\<rceil> / 2 \<and> r_w = of_int \<lceil>v_w * 2\<rceil> / 2
         \<and> v_h \<le> r_h \<and> r_h - v_h < 1 / 2 \<and> v_w \<le> r_w \<and> r_w - v_w < 1 / 2
         \<and> (\<exists>k::int. r_h = of_int k / 2) \<and> (\<exists>k::int. r_w = of_int k / 2)
         \<and> (0 \<le> (20::int) \<and> 0 \<le> ((1 / 8)::real) \<and> keeps_sign exact_arithmetic \<longrightarrow>
              0 \<le> v_h \<and> 0 \<le> v_w \<and> 0 \<le> r_h \<and> 0 \<le> r_w
              \<and> (\<exists>k::nat. r_h = real k / 2) \<and> (\<exists>k::nat. r_w = real k / 2)))
   \<and> (\<exists>scale_px h_px w_px v_h v_w r_h r_w.
         measure_px window_254 = Inr (scale_px, h_px, w_px)
         \<and> v_h = to_inches_in nudged_arithmetic 20 scale_px 0 h_px
         \<and> v_w = to_inches_in nudged_arithmetic 20 scale_px 0 w_px
         \<and> calculate_two_markers_in nudged_arithmetic window_254 20 0 = Inr (r_h, r_w)
         \<and> r_h = of_int \<lceil>v_h * 2\<rceil> / 2 \<and> r_w = of_int \<lceil>v_w * 2\<rceil> / 2
         \<and> v_h \<le> r_h \<and> r_h - v_h < 1 / 2 \<and> v_w \<le> r_w \<and> r_w - v_w < 1 / 2
         \<and> (\<exists>k::int. r_h = of_int k / 2) \<and> (\<exists>k::int. r_w = of_int k / 2)
         \<and> (0 \<le> (20::int) \<and> 0 \<le> (0::real) \<and> keeps_sign nudged_arithmetic \<longrightarrow>
              0 \<le> v_h \<and> 0 \<le> v_w \<and> 0 \<le> r_h \<and> 0 \<le> r_w
              \<and> (\<exists>k::nat. r_h = real k / 2) \<and> (\<exists>k::nat. r_w = real k / 2)))
   \<and> calculate_two_markers_in exact_arithmetic window_254 20 0 = Inr (5, 6)
   \<and> calculate_two_markers_in nudged_arithmetic window_254 20 0 = Inr (11 / 2, 6)"
proof (intro conjI)
  have a: "\<not> degenerate (square40 0 0)" "\<not> degenerate (square40 360 260)"
    "\<not> degenerate (square40 214 260)" by simp_all
  have w1: "corners window_tlbr = [square40 0 0, square40 360 260]"
    "ids window_tlbr = Some [0, 1]" by (simp_all add: window_tlbr_def)
  have w2: "corners window_254 = [square40 0 0, square40 214 260]"
    "ids window_254 = Some [0, 1]" by (simp_all add: window_254_def)
  have l: "length [0, 1 :: int] = 2" by simp
  show "\<exists>scale_px h_px w_px v_h v_w r_h r_w.
         measure_px window_tlbr = Inr (scale_px, h_px, w_px)
         \<and> v_h = to_inches_in exact_arithmetic 20 scale_px (1 / 8) h_px
         \<and> v_w = to_inches_in exact_arithmetic 20 scale_px (1 / 8) w_px
         \<and> calculate_two_markers_in exact_arithmetic window_tlbr 20 (1 / 8) = Inr (r_h, r_w)
         \<and> r_h = of_int \<lceil>v_h * 2\<rceil> / 2 \<and> r_w = of_int \<lceil>v_w * 2\<rceil> / 2
         \<and> v_h \<le> r_h \<and> r_h - v_h < 1 / 2 \<and> v_w \<le> r_w \<and> r_w - v_w < 1 / 2
         \<and> (\<exists>k::int. r_h = of_int k / 2) \<and> (\<exists>k::int. r_w = of_int k / 2)
         \<and> (0 \<le> (20::int) \<and> 0 \<le> ((1 / 8)::real) \<and> keeps_sign exact_arithmetic \<longrightarrow>
              0 \<le> v_h \<and> 0 \<le> v_w \<and> 0 \<le> r_h \<and> 0 \<le> r_w
              \<and> (\<exists>k::nat. r_h = real k / 2) \<and> (\<exists>k::nat. r_w = real k / 2))"
    by (rule rounds_up_to_half_inch [OF w1 l a(1,2)])
  show "\<exists>scale_px h_px w_px v_h v_w r_h r_w.
         measure_px window_254 = Inr (scale_px, h_px, w_px)
         \<and> v_h = to_inches_in nudged_arithmetic 20 scale_px 0 h_px
         \<and> v_w = to_inches_in nudged_arithmetic 20 scale_px 0 w_px
         \<and> calculate_two_markers_in nudged_arithmetic window_254 20 0 = Inr (r_h, r_w)
         \<and> r_h = of_int \<lceil>v_h * 2\<rceil> / 2 \<and> r_w = of_int \<lceil>v_w * 2\<rceil> / 2
         \<and> v_h \<le> r_h \<and> r_h - v_h < 1 / 2 \<and> v_w \<le> r_w \<and> r_w - v_w < 1 / 2
         \<and> (\<exists>k::int. r_h = of_int k / 2) \<and> (\<exists>k::int. r_w = of_int k / 2)
         \<and> (0 \<le> (20::int) \<and> 0 \<le> (0::real) \<and> keeps_sign nudged_arithmetic \<longrightarrow>
              0 \<le> v_h \<and> 0 \<le> v_w \<and> 0 \<le> r_h \<and> 0 \<le> r_w
              \<and> (\<exists>k::nat. r_h = real k / 2) \<and> (\<exists>k::nat. r_w = real k / 2))"
    by (rule rounds_up_to_half_inch [OF w2 l a(1,3)])
  show "calculate_two_markers_in exact_arithmetic window_254 20 0 = Inr (5, 6)"
    using calculate_in_eq [OF measure_px_window_254, of exact_arithmetic 20 0]
    by (simp add: to_inches_in_exact ceil_half_window_254 ceil_half_6)
  show "calculate_two_markers_in nudged_arithmetic window_254 20 0 = Inr (11 / 2, 6)"
    using calculate_in_eq [OF measure_px_window_254, of nudged_arithmetic 20 0]
    by (simp add: ceil_half_window_254)
qed (simp_all add: keeps_sign_exact keeps_sign_nudged)

text \<open>
  C9, as the specification has it, fails: on the window of the scenario, a marker size of
  40 mm instead of 20 mm gives 16 by 12 inches instead of 8 by 6, not 4 by 3.
\<close>

theorem doubling_size_counterexample:
  "calculate_two_markers window_tlbr 20 0 = Inr (8, 6)
   \<and> calculate_two_markers window_tlbr (2 * 20) 0 = Inr (16, 12)
   \<and> calculate_two_markers window_tlbr (2 * 20) 0 \<noteq> Inr (8 / 2, 6 / 2)"
  using calculate_eq [OF measure_px_window_tlbr, of 20 0]
    calculate_eq [OF measure_px_window_tlbr, of 40 0]
  by (simp add: ceil_half_8 ceil_half_6 ceil_half_16 ceil_half_12)

text \<open>
  C9, amended. The pixel stage does not look at the marker size. For a fixed result of the
  pixel stage with a scale that is not zero, the size of the marker enters the raw values
  as a factor: twice the size gives twice the raw height and width, the border offset set
  aside, and the results are these raw values rounded up.
\<close>

theorem doubling_size_doubles:
  assumes "measure_px det = Inr (scale_px, h_px, w_px)" and "scale_px \<noteq> 0"
  shows "calculate_two_markers det s b =
           Inr (ceil_half (to_inches s scale_px b h_px), ceil_half (to_inches s scale_px b w_px))
         \<and> calculate_two_markers det (2 * s) b =
           Inr (ceil_half (to_inches (2 * s) scale_px b h_px),
                ceil_half (to_inches (2 * s) scale_px b w_px))
         \<and> to_inches (2 * s) scale_px b h_px - 2 * b = 2 * (to_inches s scale_px b h_px - 2 * b)
         \<and> to_inches (2 * s) scale_px b w_px - 2 * b = 2 * (to_inches s scale_px b w_px - 2 * b)"
  using calculate_eq [OF assms, of s b] calculate_eq [OF assms, of "2 * s" b]
  by (simp add: to_inches_def scale_mm_of_def)

theorem doubling_size_doubles_witness:
  "calculate_two_markers window_tlbr 20 0 =
     Inr (ceil_half (to_inches 20 40 0 400), ceil_half (to_inches 20 40 0 300))
   \<and> calculate_two_markers window_tlbr (2 * 20) 0 =
     Inr (ceil_half (to_inches (2 * 20) 40 0 400), ceil_half (to_inches (2 * 20) 40 0 300))
   \<and> to_inches (2 * 20) 40 0 400 - 2 * 0 = 2 * (to_inches 20 40 0 400 - 2 * 0)
   \<and> to_inches (2 * 20) 40 0 300 - 2 * 0 = 2 * (to_inches 20 40 0 300 - 2 * 0)"
  using doubling_size_doubles [OF measure_px_window_tlbr, of 20 0] by simp

subsection \<open>Degenerate markers\<close>

lemma degenerate_collapsed [simp]: "degenerate collapsed"
  by (simp add: collapsed_def)

lemma clean_collapsed: "clean collapsed = [(0, 0), (0, 0), (0, 0), (0, 0)]"
  by (simp add: clean_def collapsed_def)

lemma measure_px_one_collapsed: "measure_px window_one_collapsed = Inr (20, 400, 300)"
  using get_scale_zero_iff [of collapsed]
  by (simp add: measure_px_def window_one_collapsed_def scale_px_of_def corner_coords_of_def
      clean_window_tlbr clean_collapsed classify_def layout_of_def is_top_marker_left_def
      get_diff_two_markers_px_def extreme_indices_def py_min_def py_max_def list_remove_def
      get_row_def extents_px_def)

lemma ceil_half_16': "ceil_half (to_inches 20 20 0 400) = 16"
  by (simp add: ceil_half_def to_inches_def scale_mm_of_def MM_IN_RATIO_def)

lemma ceil_half_12': "ceil_half (to_inches 20 20 0 300) = 12"
  by (simp add: ceil_half_def to_inches_def scale_mm_of_def MM_IN_RATIO_def)

text \<open>
  C7, as the specification has it, fails: beside a square marker, a marker whose four
  corners are one point halves the pixel scale, and a pair of numbers is returned.
\<close>

theorem collapsed_marker_counterexample:
  "degenerate collapsed \<and> calculate_two_markers window_one_collapsed 20 0 = Inr (16, 12)"
  using calculate_eq [OF measure_px_one_collapsed, of 20 0]
  by (simp add: ceil_half_16' ceil_half_12')

text \<open>
  C7, amended. \<^verbatim>\<open>get_scale\<close> is zero exactly on a marker whose four corners are one
  point. Nothing checks for it: on a detection of two markers a pair of numbers is
  returned unless both markers are such, and then the pixel scale is zero and
  \<^verbatim>\<open>math.ceil\<close> raises on the value that is not finite.
\<close>

theorem degenerate_geometry_unchecked:
  assumes "corners det = [m0, m1]" and "ids det = Some is" and "length is = 2"
  shows "(get_scale m0 = 0 \<longleftrightarrow> degenerate m0) \<and> (get_scale m1 = 0 \<longleftrightarrow> degenerate m1)
         \<and> (if degenerate m0 \<and> degenerate m1
            then calculate_two_markers det s b = Inl CeilOfNaN
                 \<or> calculate_two_markers det s b = Inl CeilOfInfinity
            else \<exists>h w. calculate_two_markers det s b = Inr (h, w))"
proof -
  obtain d where m: "measure_px det = Inr (scale_px_of m0 m1, extents_px d)"
    using measure_px_two [OF assms(1-3)] by blast
  obtain h_px w_px where e: "extents_px d = (h_px, w_px)" by (cases "extents_px d")
  show ?thesis
  proof (cases "degenerate m0 \<and> degenerate m1")
    case True
    then have "scale_px_of m0 m1 = 0" by (simp add: scale_px_of_zero_iff)
    then show ?thesis
      using m e True by (simp add: calculate_two_markers_def get_scale_zero_iff)
  next
    case False
    then have "scale_px_of m0 m1 \<noteq> 0" by (simp add: scale_px_of_zero_iff)
    then show ?thesis
      using calculate_eq [of det "scale_px_of m0 m1" h_px w_px s b] m e False
      by (simp add: get_scale_zero_iff)
  qed
qed

theorem degenerate_geometry_unchecked_witness:
  "(get_scale collapsed = 0 \<longleftrightarrow> degenerate collapsed)
   \<and> (\<exists>h w. calculate_two_markers window_one_collapsed 20 0 = Inr (h, w))
   \<and> (calculate_two_markers window_both_collapsed 20 0 = Inl CeilOfNaN
      \<or> calculate_two_markers window_both_collapsed 20 0 = Inl CeilOfInfinity)"
  using degenerate_geometry_unchecked
          [of window_one_collapsed collapsed "square40 360 260" "[0, 1]" 20 0]
        degenerate_geometry_unchecked
          [of window_both_collapsed collapsed collapsed "[0, 1]" 20 0]
  by (simp add: window_one_collapsed_def window_both_collapsed_def)

subsection \<open>The layout\<close>

lemma classify_eq:
  "classify m0 m1 =
     (if fst (clean m0 ! 0) < fst (clean m1 ! 0)
      then (if snd (clean m0 ! 0) < snd (clean m1 ! 0) then ''TLBR'' else ''TRBL'')
      else (if snd (clean m1 ! 0) < snd (clean m0 ! 0) then ''TLBR'' else ''TRBL''))"
  by (simp add: classify_def layout_of_def is_top_marker_left_def)

text \<open>
  C3, as the specification has it, fails where the two first corners have the same y: of
  two upright markers side by side the layout is \<^verbatim>\<open>"TRBL"\<close> in either order of their
  x.
\<close>

theorem equal_y_counterexample:
  "classify (square40 0 5) (square40 100 5) = ''TRBL''
   \<and> classify (square40 100 5) (square40 0 5) = ''TRBL''"
  using clean_square40 [of 0 5] clean_square40 [of 100 5]
  by (simp add: classify_eq)

text \<open>
  C3, amended. For every two markers, with the rounded first corners compared: the first
  marker is called the top marker when its x is the smaller one, the second marker
  otherwise (also when the two x are equal), and the layout is \<^verbatim>\<open>"TLBR"\<close> when the y
  of the top marker is smaller than the y of the bottom marker, \<^verbatim>\<open>"TRBL"\<close> otherwise.
  So two first corners with the same y give \<^verbatim>\<open>"TRBL"\<close> in either order of the
  markers; and when two other markers have first corners with the same two y, these
  different, and the opposite strict order of x, the layout is the other one.
\<close>

theorem diagonal_classification:
  "classify m0 m1 =
     (if fst (clean m0 ! 0) < fst (clean m1 ! 0)
      then (if snd (clean m0 ! 0) < snd (clean m1 ! 0) then ''TLBR'' else ''TRBL'')
      else (if snd (clean m1 ! 0) < snd (clean m0 ! 0) then ''TLBR'' else ''TRBL''))
   \<and> (snd (clean m0 ! 0) = snd (clean m1 ! 0) \<longrightarrow>
        classify m0 m1 = ''TRBL'' \<and> classify m1 m0 = ''TRBL'')
   \<and> (snd (clean m0' ! 0) = snd (clean m0 ! 0) \<and> snd (clean m1' ! 0) = snd (clean m1 ! 0)
      \<and> snd (clean m0 ! 0) \<noteq> snd (clean m1 ! 0)
      \<and> (fst (clean m0 ! 0) < fst (clean m1 ! 0) \<and> fst (clean m1' ! 0) < fst (clean m0' ! 0)
         \<or> fst (clean m1 ! 0) < fst (clean m0 ! 0) \<and> fst (clean m0' ! 0) < fst (clean m1' ! 0))
      \<longrightarrow> classify m0' m1' \<noteq> classify m0 m1
          \<and> (classify m0 m1 = ''TLBR'' \<longrightarrow> classify m0' m1' = ''TRBL'')
          \<and> (classify m0 m1 = ''TRBL'' \<longrightarrow> classify m0' m1' = ''TLBR''))"
  by (auto simp: classify_eq)

theorem diagonal_classification_witness:
  "classify (square40 0 5) (square40 100 5) = ''TRBL''
   \<and> classify (square40 100 5) (square40 0 5) = ''TRBL''
   \<and> classify (square40 0 0) (square40 360 260) = ''TLBR''
   \<and> classify (square40 360 0) (square40 0 260) = ''TRBL''
   \<and> classify (square40 360 0) (square40 0 260) \<noteq> classify (square40 0 0) (square40 360 260)
   \<and> classify (square40 360 260) (square40 0 0) = ''TLBR''
   \<and> classify (square40 0 260) (square40 360 0) = ''TRBL''
   \<and> classify (square40 0 260) (square40 360 0) \<noteq> classify (square40 360 260) (square40 0 0)"
  using diagonal_classification [of "square40 0 5" "square40 100 5" "square40 0 5" "square40 100 5"]
    diagonal_classification [of "square40 0 0" "square40 360 260" "square40 360 0" "square40 0 260"]
    diagonal_classification [of "square40 360 260" "square40 0 0" "square40 0 260" "square40 360 0"]
    clean_square40 [of 0 5] clean_square40 [of 100 5]
    clean_square40 [of 0 0] clean_square40 [of 360 260]
    clean_square40 [of 360 0] clean_square40 [of 0 260]
  by simp

subsection \<open>Extreme rows with a repeated y\<close>

lemma count_list_remove1:
  "count_list (remove1 x ys) v = (if x = v \<and> x \<in> set ys then count_list ys v - 1 else count_list ys v)"
  by (induction ys) auto

lemma count_list_pos_iff: "0 < count_list ys v \<longleftrightarrow> v \<in> set ys"
  by (induction ys) auto

lemma count_list_pos_mem: "0 < count_list ys v \<Longrightarrow> v \<in> set ys"
  by (simp add: count_list_pos_iff)

lemma count_list_all_eq: "(\<And>y. y \<in> set ys \<Longrightarrow> y = v) \<Longrightarrow> count_list ys v = length ys"
  by (induction ys) auto

lemma Min_remove1_tied:
  assumes "1 < count_list ys (Min (set ys))"
  shows "Min (set (remove1 (Min (set ys)) ys)) = Min (set ys)"
proof -
  let ?m = "Min (set ys)"
  have "?m \<in> set ys" using assms count_list_pos_iff [of ys ?m] by simp
  then have "0 < count_list (remove1 ?m ys) ?m" using assms by (simp add: count_list_remove1)
  then have mem: "?m \<in> set (remove1 ?m ys)" by (rule count_list_pos_mem)
  have "\<And>y. y \<in> set (remove1 ?m ys) \<Longrightarrow> ?m \<le> y"
    using set_remove1_subset [of ?m ys] by (auto intro: Min_le)
  with mem show ?thesis by (intro Min_eqI) auto
qed

lemma Max_tail_tied:
  assumes "1 < count_list ys (Max (set ys))" and "3 \<le> length ys"
  shows "Max (set (remove1 (Min (set ys)) ys)) = Max (set ys)"
    and "Max (set (remove1 (Max (set ys)) (remove1 (Min (set ys)) ys))) = Max (set ys)"
proof -
  let ?m = "Min (set ys)" and ?M = "Max (set ys)"
  let ?tmp = "remove1 ?m ys"
  have ne: "ys \<noteq> []" using assms(2) by auto
  have c1: "1 \<le> count_list ?tmp ?M"
    using assms(1) by (auto simp: count_list_remove1)
  have c2: "1 \<le> count_list (remove1 ?M ?tmp) ?M"
  proof (cases "?m = ?M")
    case False
    then show ?thesis using assms(1) by (auto simp: count_list_remove1)
  next
    case True
    have "\<And>y. y \<in> set ys \<Longrightarrow> y = ?M"
    proof -
      fix y assume "y \<in> set ys"
      then have "?m \<le> y" "y \<le> ?M" by simp_all
      with True show "y = ?M" by simp
    qed
    then have "count_list ys ?M = length ys"
      by (rule count_list_all_eq)
    then show ?thesis using assms(2) True by (auto simp: count_list_remove1)
  qed
  have m1: "?M \<in> set ?tmp" using c1 by (intro count_list_pos_mem) simp
  have m2: "?M \<in> set (remove1 ?M ?tmp)" using c2 by (intro count_list_pos_mem) simp
  have le1: "\<And>y. y \<in> set ?tmp \<Longrightarrow> y \<le> ?M"
    using set_remove1_subset [of ?m ys] by (auto intro: Max_ge)
  then have le2: "\<And>y. y \<in> set (remove1 ?M ?tmp) \<Longrightarrow> y \<le> ?M"
    using set_remove1_subset [of ?M ?tmp] by auto
  show "Max (set ?tmp) = ?M" using m1 le1 by (intro Max_eqI) auto
  show "Max (set (remove1 ?M ?tmp)) = ?M" using m2 le2 by (intro Max_eqI) auto
qed

lemma first_row_with_y:
  assumes "v \<in> set (map snd cs)"
  shows "first_pos (map snd cs) v < length cs"
    and "snd (cs ! first_pos (map snd cs) v) = v"
    and "\<forall>j < first_pos (map snd cs) v. snd (cs ! j) \<noteq> v"
proof -
  let ?i = "first_pos (map snd cs) v"
  show less: "?i < length cs" using first_pos_less [OF assms] by simp
  show "snd (cs ! ?i) = v" using nth_first_pos [OF assms] less by simp
  show "\<forall>j < ?i. snd (cs ! j) \<noteq> v"
  proof (intro allI impI)
    fix j assume j: "j < ?i"
    then have "map snd cs ! j \<noteq> v" by (rule first_pos_least)
    moreover have "j < length cs" using j less by simp
    ultimately show "snd (cs ! j) \<noteq> v" by simp
  qed
qed

lemma tied_rows_ys:
  "map snd tied_rows = [0, 0, 40, 40, 260, 260, 300, 300]"
  "Min (set (map snd tied_rows)) = 0" "Max (set (map snd tied_rows)) = 300"
  by (simp_all add: tied_rows_def)

text \<open>
  C10. For every list of rows on which \<^verbatim>\<open>get_diff_two_markers_px\<close> is defined (eight
  rows in the program, three or more here) and both layouts: when the smallest y occurs
  more than once, the two positions of the top pair are one position, the first row with
  that y, and this row is the returned top extreme; when the largest y occurs more than
  once, the two positions of the bottom pair are the first row with that y, and this row
  is the returned bottom extreme.
\<close>

theorem tied_extreme_is_first_row:
  assumes "3 \<le> length coords" and "d = ''TLBR'' \<or> d = ''TRBL''"
  shows "(1 < count_list (map snd coords) (Min (set (map snd coords))) \<longrightarrow>
           (\<exists>i i3 i4 b_x b_y.
              extreme_indices coords = Inr (i, i, i3, i4)
              \<and> i < length coords
              \<and> snd (coords ! i) = Min (set (map snd coords))
              \<and> (\<forall>j<i. snd (coords ! j) \<noteq> Min (set (map snd coords)))
              \<and> get_diff_two_markers_px coords d = Inr (fst (coords ! i), snd (coords ! i), b_x, b_y)))
       \<and> (1 < count_list (map snd coords) (Max (set (map snd coords))) \<longrightarrow>
           (\<exists>i1 i2 i t_x t_y.
              extreme_indices coords = Inr (i1, i2, i, i)
              \<and> i < length coords
              \<and> snd (coords ! i) = Max (set (map snd coords))
              \<and> (\<forall>j<i. snd (coords ! j) \<noteq> Max (set (map snd coords)))
              \<and> get_diff_two_markers_px coords d = Inr (t_x, t_y, fst (coords ! i), snd (coords ! i))))"
proof -
  let ?ys = "map snd coords"
  let ?m = "Min (set ?ys)" and ?M = "Max (set ?ys)"
  have len: "3 \<le> length ?ys" using assms(1) by simp
  obtain y1 y2 y3 y4 where e: "extreme_ys ?ys = (y1, y2, y3, y4)" by (metis prod_cases4)
  note idx = extreme_indices_eq [OF assms(1) e]
  note diff = get_diff_eq [OF assms(1) e, of d]
  have y1: "y1 = ?m" and y2: "y2 = Min (set (remove1 ?m ?ys))"
    and y3: "y3 = Max (set (remove1 ?m ?ys))"
    and y4: "y4 = Max (set (remove1 (Max (set (remove1 ?m ?ys))) (remove1 ?m ?ys)))"
    using e by (auto simp: extreme_ys_def Let_def)
  have "set ?ys \<noteq> {}" using len by auto
  then have mem: "?m \<in> set ?ys" "?M \<in> set ?ys"
    using Min_in [of "set ?ys"] Max_in [of "set ?ys"] by simp_all
  show ?thesis
  proof (intro conjI impI)
    assume "1 < count_list ?ys ?m"
    then have "y2 = ?m" using y2 Min_remove1_tied [of ?ys] by simp
    then show "\<exists>i i3 i4 b_x b_y.
              extreme_indices coords = Inr (i, i, i3, i4)
              \<and> i < length coords
              \<and> snd (coords ! i) = ?m
              \<and> (\<forall>j<i. snd (coords ! j) \<noteq> ?m)
              \<and> get_diff_two_markers_px coords d = Inr (fst (coords ! i), snd (coords ! i), b_x, b_y)"
      using idx diff y1 first_row_with_y [OF mem(1)] assms(2)
      by (auto simp: Let_def row_at_def simp del: set_map)
  next
    assume t: "1 < count_list ?ys ?M"
    have "y3 = ?M" using y3 Max_tail_tied(1) [OF t len] by simp
    moreover have "y4 = ?M" using y4 Max_tail_tied [OF t len] by simp
    ultimately show "\<exists>i1 i2 i t_x t_y.
              extreme_indices coords = Inr (i1, i2, i, i)
              \<and> i < length coords
              \<and> snd (coords ! i) = ?M
              \<and> (\<forall>j<i. snd (coords ! j) \<noteq> ?M)
              \<and> get_diff_two_markers_px coords d = Inr (t_x, t_y, fst (coords ! i), snd (coords ! i))"
      using idx diff first_row_with_y [OF mem(2)] assms(2)
      by (auto simp: Let_def row_at_def simp del: set_map)
  qed
qed

theorem tied_extreme_is_first_row_witness:
  "1 < count_list (map snd tied_rows) (Min (set (map snd tied_rows)))
   \<and> 1 < count_list (map snd tied_rows) (Max (set (map snd tied_rows)))
   \<and> (\<exists>i i3 i4 b_x b_y.
         extreme_indices tied_rows = Inr (i, i, i3, i4)
         \<and> i < length tied_rows
         \<and> snd (tied_rows ! i) = 0
         \<and> (\<forall>j<i. snd (tied_rows ! j) \<noteq> 0)
         \<and> get_diff_two_markers_px tied_rows ''TRBL'' = Inr (fst (tied_rows ! i), snd (tied_rows ! i), b_x, b_y))
   \<and> (\<exists>i1 i2 i t_x t_y.
         extreme_indices tied_rows = Inr (i1, i2, i, i)
         \<and> i < length tied_rows
         \<and> snd (tied_rows ! i) = 300
         \<and> (\<forall>j<i. snd (tied_rows ! j) \<noteq> 300)
         \<and> get_diff_two_markers_px tied_rows ''TRBL'' = Inr (t_x, t_y, fst (tied_rows ! i), snd (tied_rows ! i)))"
proof -
  have l: "3 \<le> length tied_rows" by (simp add: tied_rows_def)
  have c: "1 < count_list (map snd tied_rows) (Min (set (map snd tied_rows)))"
    "1 < count_list (map snd tied_rows) (Max (set (map snd tied_rows)))"
    by (simp_all add: tied_rows_ys)
  show ?thesis
    using tied_extreme_is_first_row [OF l, of "''TRBL''"] c
    by (simp add: tied_rows_ys(2,3) del: set_map)
qed

subsection \<open>The selected corner pair\<close>

lemma row_at_unique:
  assumes "distinct (map snd cs)" and "p \<in> set cs"
  shows "row_at cs (snd p) = p"
proof -
  let ?ys = "map snd cs"
  let ?i = "first_pos ?ys (snd p)"
  have mem: "snd p \<in> set ?ys" using assms(2) by force
  obtain k where k: "k < length cs" "cs ! k = p" using assms(2) by (auto simp: in_set_conv_nth)
  have i: "?i < length ?ys" "?ys ! ?i = snd p"
    using first_pos_less [OF mem] nth_first_pos [OF mem] by simp_all
  have kl: "k < length ?ys" using k(1) by simp
  have "?ys ! k = snd p" using k by simp
  with i(2) have "?ys ! ?i = ?ys ! k" by (simp only:)
  then have "?i = k" using nth_eq_iff_index_eq [OF assms(1) i(1) kl] by (simp only:)
  then show ?thesis using k by (simp add: row_at_def)
qed

lemma map_snd_remove1:
  "distinct (map snd cs) \<Longrightarrow> p \<in> set cs \<Longrightarrow> map snd (remove1 p cs) = remove1 (snd p) (map snd cs)"
  by (induction cs) force+

lemma arg_min_row:
  assumes "cs \<noteq> []" and "distinct (map snd cs)"
  shows "arg_min_list snd cs = row_at cs (Min (set (map snd cs)))"
  using row_at_unique [OF assms(2) arg_min_list_in [OF assms(1), of snd]]
    f_arg_min_list_f [OF assms(1), of snd] by simp

lemma Min_uminus_image:
  assumes "finite S" and "S \<noteq> {}"
  shows "Min (uminus ` S) = - Max (S :: int set)"
proof (rule Min_eqI)
  show "finite (uminus ` S)" using assms(1) by simp
  show "- Max S \<in> uminus ` S" using Max_in [OF assms] by simp
  fix y assume "y \<in> uminus ` S"
  then obtain x where "x \<in> S" "y = - x" by auto
  then show "- Max S \<le> y" using Max_ge [OF assms(1), of x] by simp
qed

lemma arg_max_row:
  assumes "cs \<noteq> []" and "distinct (map snd cs)"
  shows "arg_min_list (\<lambda>r. - snd r) cs = row_at cs (Max (set (map snd cs)))"
proof -
  let ?p = "arg_min_list (\<lambda>r. - snd r) cs"
  have "(\<lambda>r. - snd r) ` set cs = uminus ` (snd ` set cs)" by auto
  then have "- snd ?p = Min (uminus ` (snd ` set cs))"
    using f_arg_min_list_f [OF assms(1), of "\<lambda>r. - snd r"] by simp
  also have "\<dots> = - Max (snd ` set cs)"
    using assms(1) by (intro Min_uminus_image) auto
  finally have "snd ?p = Max (set (map snd cs))" by simp
  then show ?thesis
    using row_at_unique [OF assms(2) arg_min_list_in [OF assms(1), of "\<lambda>r. - snd r"]] by simp
qed

lemma extreme_ys_distinct:
  assumes "distinct ys" and "3 \<le> length ys"
  shows "extreme_ys ys =
         (Min (set ys), Min (set ys - {Min (set ys)}), Max (set ys), Max (set ys - {Max (set ys)}))"
proof -
  let ?S = "set ys"
  let ?m = "Min ?S" and ?M = "Max ?S"
  have card: "card ?S = length ys" using assms(1) by (rule distinct_card)
  have ne: "?S \<noteq> {}" using assms(2) by auto
  have m: "?m \<in> ?S" and M: "?M \<in> ?S" using ne by simp_all
  have neq: "?m \<noteq> ?M"
  proof
    assume eq: "?m = ?M"
    have "?S \<subseteq> {?M}"
    proof
      fix y assume "y \<in> ?S"
      then have "?m \<le> y" "y \<le> ?M" by simp_all
      with eq show "y \<in> {?M}" by simp
    qed
    then have "card ?S \<le> card {?M}" by (intro card_mono) simp_all
    with card assms(2) show False by simp
  qed
  have r1: "set (remove1 ?m ys) = ?S - {?m}" using assms(1) by simp
  have d1: "distinct (remove1 ?m ys)" using assms(1) by simp
  have M1: "Max (?S - {?m}) = ?M"
    using M neq by (intro Max_eqI) auto
  have r2: "set (remove1 ?M (remove1 ?m ys)) = ?S - {?m} - {?M}" using d1 r1 by simp
  let ?t = "Max (?S - {?M})"
  have cardT: "card (?S - {?M}) = length ys - 1" using M card by simp
  then have "0 < card (?S - {?M})" using assms(2) by simp
  then have neT: "?S - {?M} \<noteq> {}" using card_gt_0_iff by blast
  have t: "?t \<in> ?S - {?M}" using neT by (intro Max_in) simp_all
  have "?t \<noteq> ?m"
  proof
    assume eq: "?t = ?m"
    have "?S - {?M} \<subseteq> {?m}"
    proof
      fix y assume y: "y \<in> ?S - {?M}"
      then have "y \<le> ?t" by (intro Max_ge) simp_all
      moreover have "?m \<le> y" using y by simp
      ultimately show "y \<in> {?m}" using eq by simp
    qed
    then have "card (?S - {?M}) \<le> card {?m}" by (intro card_mono) simp_all
    with cardT assms(2) show False by simp
  qed
  then have t': "?t \<in> ?S - {?m} - {?M}" using t by auto
  have M2: "Max (?S - {?m} - {?M}) = ?t"
  proof (rule Max_eqI)
    show "finite (?S - {?m} - {?M})" by simp
    show "?t \<in> ?S - {?m} - {?M}" by (rule t')
    fix y assume "y \<in> ?S - {?m} - {?M}"
    then have "y \<in> ?S - {?M}" by auto
    then show "y \<le> ?t" by (intro Max_ge) simp_all
  qed
  show ?thesis
    unfolding extreme_ys_def Let_def r1 M1 r2 M2 ..
qed

lemma spec_pairs_distinct:
  assumes "distinct (map snd cs)" and "3 \<le> length cs"
  shows "top_pair_spec cs =
           (row_at cs (Min (set (map snd cs))),
            row_at cs (Min (set (map snd cs) - {Min (set (map snd cs))})))"
    and "bottom_pair_spec cs =
           (row_at cs (Max (set (map snd cs))),
            row_at cs (Max (set (map snd cs) - {Max (set (map snd cs))})))"
proof -
  let ?ys = "map snd cs"
  have ne: "cs \<noteq> []" using assms(2) by auto
  have dys: "distinct ?ys" by (rule assms(1))
  { fix f :: "px \<Rightarrow> int" and v
    assume p: "arg_min_list f cs = row_at cs v" and v: "v \<in> set ?ys"
    let ?p = "arg_min_list f cs"
    let ?q = "arg_min_list f (remove1 ?p cs)"
    have pin: "?p \<in> set cs" using ne by (rule arg_min_list_in)
    have sp: "snd ?p = v"
      using p nth_first_pos [OF v] first_pos_less [OF v] by (simp add: row_at_def)
    have "length (remove1 ?p cs) = length cs - 1" using pin by (simp add: length_remove1)
    then have ne1: "remove1 ?p cs \<noteq> []" using assms(2) by auto
    have ys1: "map snd (remove1 ?p cs) = remove1 v ?ys"
      using map_snd_remove1 [OF assms(1) pin] sp by simp
    have qin: "?q \<in> set (remove1 ?p cs)" using ne1 by (rule arg_min_list_in)
    then have "?q \<in> set cs" using set_remove1_subset [of ?p cs] by auto
    then have q: "row_at cs (snd ?q) = ?q" by (rule row_at_unique [OF assms(1)])
    have "f ?q = Min (f ` set (remove1 ?p cs))" using ne1 by (rule f_arg_min_list_f)
    note ne1 ys1 q this sp
  } note step = this
  have top1: "arg_min_list snd cs = row_at cs (Min (set ?ys))"
    using arg_min_row [OF ne assms(1)] .
  have bot1: "arg_min_list (\<lambda>r. - snd r) cs = row_at cs (Max (set ?ys))"
    using arg_max_row [OF ne assms(1)] .
  have mem: "Min (set ?ys) \<in> set ?ys" "Max (set ?ys) \<in> set ?ys"
    using ne Min_in [of "set ?ys"] Max_in [of "set ?ys"] by simp_all
  let ?p = "arg_min_list snd cs"
  let ?q = "arg_min_list snd (remove1 ?p cs)"
  note s1 = step [OF top1 mem(1)]
  have "snd ?q = Min (snd ` set (remove1 ?p cs))" using s1(4) .
  also have "snd ` set (remove1 ?p cs) = set (map snd (remove1 ?p cs))" by simp
  also have "\<dots> = set ?ys - {Min (set ?ys)}" using s1(2) dys by simp
  finally have "?q = row_at cs (Min (set ?ys - {Min (set ?ys)}))" using s1(3) by simp
  then show "top_pair_spec cs =
           (row_at cs (Min (set ?ys)), row_at cs (Min (set ?ys - {Min (set ?ys)})))"
    using top1 by (simp add: top_pair_spec_def Let_def)
  let ?p' = "arg_min_list (\<lambda>r. - snd r) cs"
  let ?q' = "arg_min_list (\<lambda>r. - snd r) (remove1 ?p' cs)"
  note s2 = step [OF bot1 mem(2)]
  have set2: "set (map snd (remove1 ?p' cs)) = set ?ys - {Max (set ?ys)}"
    using s2(2) dys by simp
  have "length (remove1 ?p' cs) \<noteq> 0" using s2(1) by simp
  then have ne2: "set (map snd (remove1 ?p' cs)) \<noteq> {}" by simp
  have "(\<lambda>r. - snd r) ` set (remove1 ?p' cs) = uminus ` set (map snd (remove1 ?p' cs))"
    by auto
  then have "- snd ?q' = Min (uminus ` set (map snd (remove1 ?p' cs)))" using s2(4) by simp
  also have "\<dots> = - Max (set (map snd (remove1 ?p' cs)))"
    using ne2 by (intro Min_uminus_image) simp_all
  finally have "snd ?q' = Max (set ?ys - {Max (set ?ys)})" using set2 by simp
  then have "?q' = row_at cs (Max (set ?ys - {Max (set ?ys)}))" using s2(3) by simp
  then show "bottom_pair_spec cs =
           (row_at cs (Max (set ?ys)), row_at cs (Max (set ?ys - {Max (set ?ys)})))"
    using bot1 by (simp add: bottom_pair_spec_def Let_def)
qed

text \<open>
  Where no two rows have the same y, \<^verbatim>\<open>get_diff_two_markers_px\<close> returns the corner
  pair of the specification, for both layouts.
\<close>

lemma get_diff_refines_spec:
  assumes "distinct (map snd cs)" and "3 \<le> length cs" and "d = ''TLBR'' \<or> d = ''TRBL''"
  shows "get_diff_two_markers_px cs d =
         (case corner_pair_spec cs d of (t, b) \<Rightarrow> Inr (fst t, snd t, fst b, snd b))"
proof -
  have len: "3 \<le> length (map snd cs)" using assms(2) by simp
  note e = extreme_ys_distinct [OF assms(1) len]
  show ?thesis
    using assms(3)
    unfolding get_diff_eq [OF assms(2) e] corner_pair_spec_def spec_pairs_distinct [OF assms(1,2)]
    by (auto simp: smaller_x_def larger_x_def Let_def)
qed

lemma clean_window_trbl:
  "clean (square40 400 0) @ clean (square40 0 260) = tied_rows"
  using clean_square40 [of 400 0] clean_square40 [of 0 260] by (simp add: tied_rows_def)

lemma get_diff_tied_rows: "get_diff_two_markers_px tied_rows ''TRBL'' = Inr (400, 0, 40, 300)"
  by (simp add: tied_rows_def get_diff_two_markers_px_def extreme_indices_def py_min_def
      py_max_def list_remove_def get_row_def)

lemma classify_window_trbl: "classify (square40 400 0) (square40 0 260) = ''TRBL''"
  using clean_square40 [of 400 0] clean_square40 [of 0 260] by (simp add: classify_eq)

lemma measure_px_window_trbl: "measure_px window_trbl = Inr (40, 360, 300)"
  by (simp add: measure_px_def window_trbl_def scale_px_of_def corner_coords_of_def
      clean_window_trbl classify_window_trbl get_diff_tied_rows extents_px_def)

lemma ceil_half_15_2: "ceil_half (to_inches 20 40 0 360) = 15 / 2"
  by (simp add: ceil_half_def to_inches_def scale_mm_of_def MM_IN_RATIO_def)

text \<open>
  C2. The selection of the specification and \<^verbatim>\<open>get_diff_two_markers_px\<close> part where a
  y is repeated. On the pooled rows of two upright markers in the top right and bottom
  left corner of a 440 by 300 window, the two rows with the smallest y are \<open>(400, 0)\<close>
  and \<open>(440, 0)\<close> and those with the largest y are \<open>(40, 300)\<close> and \<open>(0, 300)\<close>, so the
  corner pair for \<^verbatim>\<open>"TRBL"\<close> is \<open>(440, 0)\<close> and \<open>(0, 300)\<close>; the function returns
  \<open>(400, 0)\<close> and \<open>(40, 300)\<close>, and \<^verbatim>\<open>calculate_two_markers\<close> measures 360 instead of
  440 pixels: 7.5 inches where 440 pixels give 9.
\<close>

theorem tied_top_pair_divergence:
  "corner_coords_of (corners window_trbl) = tied_rows
   \<and> top_pair_spec tied_rows = ((400, 0), (440, 0))
   \<and> bottom_pair_spec tied_rows = ((40, 300), (0, 300))
   \<and> corner_pair_spec tied_rows ''TRBL'' = ((440, 0), (0, 300))
   \<and> get_diff_two_markers_px tied_rows ''TRBL'' = Inr (400, 0, 40, 300)
   \<and> calculate_two_markers window_trbl 20 0 = Inr (15 / 2, 6)"
proof -
  have "corner_coords_of (corners window_trbl) = tied_rows"
    using clean_window_trbl by (simp add: corner_coords_of_def window_trbl_def)
  moreover have "top_pair_spec tied_rows = ((400, 0), (440, 0))"
    by (simp add: top_pair_spec_def tied_rows_def)
  moreover have "bottom_pair_spec tied_rows = ((40, 300), (0, 300))"
    by (simp add: bottom_pair_spec_def tied_rows_def)
  ultimately show ?thesis
    using calculate_eq [OF measure_px_window_trbl, of 20 0]
    by (simp add: corner_pair_spec_def smaller_x_def larger_x_def get_diff_tied_rows
        ceil_half_15_2 ceil_half_6)
qed

subsection \<open>The order of the two markers\<close>

lemma extreme_ys_perm:
  assumes "mset ys = mset ys'"
  shows "extreme_ys ys = extreme_ys ys'"
proof -
  have s0: "set ys = set ys'" using assms by (rule mset_eq_setD)
  let ?y1 = "Min (set ys)"
  have m1: "mset (remove1 ?y1 ys) = mset (remove1 ?y1 ys')" using assms by simp
  then have s1: "set (remove1 ?y1 ys) = set (remove1 ?y1 ys')" by (rule mset_eq_setD)
  let ?y3 = "Max (set (remove1 ?y1 ys))"
  have "mset (remove1 ?y3 (remove1 ?y1 ys)) = mset (remove1 ?y3 (remove1 ?y1 ys'))"
    using m1 by simp
  then have s2: "set (remove1 ?y3 (remove1 ?y1 ys)) = set (remove1 ?y3 (remove1 ?y1 ys'))"
    by (rule mset_eq_setD)
  show ?thesis
    unfolding extreme_ys_def Let_def s0 [symmetric] s1 [symmetric] s2 [symmetric] ..
qed

lemma first_pos_append:
  "first_pos (xs @ ys) v =
     (if v \<in> set xs then first_pos xs v else length xs + first_pos ys v)"
  by (induction xs) auto

lemma row_at_append:
  "row_at (as @ bs) v = (if v \<in> set (map snd as) then row_at as v else row_at bs v)"
  using first_pos_less [of v "map snd as"]
  by (simp add: row_at_def first_pos_append nth_append del: set_map)

lemma row_at_swap:
  assumes "set (map snd as) \<inter> set (map snd bs) = {}" and "v \<in> set (map snd (as @ bs))"
  shows "row_at (as @ bs) v = row_at (bs @ as) v"
  using assms unfolding row_at_append by auto

lemma get_diff_swap:
  assumes "set (map snd as) \<inter> set (map snd bs) = {}" and "3 \<le> length (as @ bs)"
  shows "get_diff_two_markers_px (as @ bs) d = get_diff_two_markers_px (bs @ as) d"
proof -
  obtain y1 y2 y3 y4 where e: "extreme_ys (map snd (as @ bs)) = (y1, y2, y3, y4)"
    by (metis prod_cases4)
  have "mset (map snd (as @ bs)) = mset (map snd (bs @ as))" by simp
  then have e': "extreme_ys (map snd (bs @ as)) = (y1, y2, y3, y4)"
    using e extreme_ys_perm by metis
  have l': "3 \<le> length (bs @ as)" using assms(2) by simp
  have l: "3 \<le> length (map snd (as @ bs))" using assms(2) by simp
  note mem = extreme_ys_mem(1-4) [OF l e]
  note rows = mem [THEN row_at_swap [OF assms(1)]]
  show ?thesis
    unfolding get_diff_eq [OF assms(2) e] get_diff_eq [OF l' e'] rows ..
qed

lemma classify_commute:
  "fst (clean m0 ! 0) \<noteq> fst (clean m1 ! 0) \<Longrightarrow> classify m0 m1 = classify m1 m0"
  by (auto simp: classify_eq)

lemma measure_px_swap:
  assumes "corners det = [m0, m1]" and "ids det = Some is" and "length is = 2"
    and "corners det' = [m1, m0]" and "ids det' = Some is'" and "length is' = 2"
    and "fst (clean m0 ! 0) \<noteq> fst (clean m1 ! 0)"
    and "set (map snd (clean m0)) \<inter> set (map snd (clean m1)) = {}"
  shows "measure_px det = measure_px det'"
proof -
  have "get_diff_two_markers_px (clean m0 @ clean m1) (classify m0 m1)
        = get_diff_two_markers_px (clean m1 @ clean m0) (classify m0 m1)"
    using assms(8) by (intro get_diff_swap) simp_all
  moreover have "scale_px_of m0 m1 = scale_px_of m1 m0" by (simp add: scale_px_of_def)
  ultimately show ?thesis
    using assms(1-6) classify_commute [OF assms(7)]
    by (simp add: measure_px_def corner_coords_of_def)
qed

lemma sqrt_2500: "sqrt 2500 = 50"
  by (rule real_sqrt_unique) simp_all

lemma get_scale_slanted: "get_scale (slanted x y) = 45"
  by (simp add: slanted_def np_average_def vec_sub_def linalg_norm_def sqrt_2500)

lemma clean_slanted:
  "clean (slanted (of_int x) (of_int y)) = [(x, y), (x + 40, y + 30), (x + 40, y + 70), (x, y + 40)]"
proof -
  have "py_round (of_int x + 40) = x + 40" "py_round (of_int y + 30) = y + 30"
    "py_round (of_int y + 70) = y + 70" "py_round (of_int y + 40) = y + 40"
    using py_round_of_int [of "x + 40"] py_round_of_int [of "y + 30"]
      py_round_of_int [of "y + 70"] py_round_of_int [of "y + 40"] by simp_all
  then show ?thesis by (simp add: clean_def slanted_def)
qed

lemma clean_slanted_examples:
  "clean (slanted 10 0) = [(10, 0), (50, 30), (50, 70), (10, 40)]"
  "clean (slanted 10 200) = [(10, 200), (50, 230), (50, 270), (10, 240)]"
  "clean (slanted 310 200) = [(310, 200), (350, 230), (350, 270), (310, 240)]"
  using clean_slanted [of 10 0] clean_slanted [of 10 200] clean_slanted [of 310 200]
  by simp_all

lemma measure_px_stacked: "measure_px stacked = Inr (45, 40, 210)"
  by (simp add: measure_px_def stacked_def scale_px_of_def corner_coords_of_def
      get_scale_slanted clean_slanted_examples classify_eq
      get_diff_two_markers_px_def extreme_indices_def py_min_def py_max_def list_remove_def
      get_row_def extents_px_def)

lemma measure_px_stacked_swapped: "measure_px stacked_swapped = Inr (45, 40, 270)"
  by (simp add: measure_px_def stacked_swapped_def scale_px_of_def corner_coords_of_def
      get_scale_slanted clean_slanted_examples classify_eq
      get_diff_two_markers_px_def extreme_indices_def py_min_def py_max_def list_remove_def
      get_row_def extents_px_def)

lemma ceil_half_stacked:
  "ceil_half (to_inches 45 45 0 40) = 2"
  "ceil_half (to_inches 45 45 0 210) = 17 / 2"
  "ceil_half (to_inches 45 45 0 270) = 11"
  by (simp_all add: ceil_half_def to_inches_def scale_mm_of_def MM_IN_RATIO_def)

text \<open>
  C8, as the specification has it, fails: of two markers whose first corners have the same
  x, the second one detected is called the top marker, so the order of detection decides
  the layout. One above the other, the two slanted markers measure 2 by 8.5 inches in one
  order and 2 by 11 inches in the other.
\<close>

theorem equal_x_order_counterexample:
  "calculate_two_markers stacked 45 0 = Inr (2, 17 / 2)
   \<and> calculate_two_markers stacked_swapped 45 0 = Inr (2, 11)"
  using calculate_eq [OF measure_px_stacked, of 45 0]
    calculate_eq [OF measure_px_stacked_swapped, of 45 0]
  by (simp add: ceil_half_stacked)

text \<open>
  C8, amended. When the rounded first corners of the two markers differ in x and no
  rounded corner of one marker has the y of a rounded corner of the other, the detection
  with the two markers in the other order gives the same result, an exception included.
\<close>

theorem marker_order_independent:
  assumes "corners det = [m0, m1]" and "ids det = Some [i0, i1]"
    and "corners det' = [m1, m0]" and "ids det' = Some [i1, i0]"
    and "fst (clean m0 ! 0) \<noteq> fst (clean m1 ! 0)"
    and "set (map snd (clean m0)) \<inter> set (map snd (clean m1)) = {}"
  shows "calculate_two_markers det s b = calculate_two_markers det' s b"
  using measure_px_swap [OF assms(1,2) _ assms(3,4) _ assms(5,6)]
  by (simp add: calculate_two_markers_def)

theorem marker_order_independent_witness:
  "fst (clean (square40 0 0) ! 0) \<noteq> fst (clean (square40 360 260) ! 0)
   \<and> set (map snd (clean (square40 0 0))) \<inter> set (map snd (clean (square40 360 260))) = {}
   \<and> calculate_two_markers window_tlbr 20 0 = calculate_two_markers window_tlbr_swapped 20 0"
  using marker_order_independent
    [of window_tlbr "square40 0 0" "square40 360 260" 0 1 window_tlbr_swapped 20 0]
  by (simp add: window_tlbr_def window_tlbr_swapped_def clean_window_tlbr)

end
